theory Spec2Isabelle
  imports Complex_Main "HOL-Library.Multiset"
begin

chapter \<open>The article aggregation pipeline: model\<close>

text \<open>
  The repository holds two scripts. \<^verbatim>\<open>fetchRSS\<close> reads syndication feeds,
  \<^verbatim>\<open>fetchSpecialRSS\<close> scrapes listing pages with a headless browser. Both normalise
  what they fetch into one record, merge it into the persisted corpus, deduplicate by
  title, sort and write the corpus back. The model below follows the source function by
  function. What the scripts take from their environment (the clock, the date parser, the
  collation of \<^verbatim>\<open>localeCompare\<close>, the network and the browser) is gathered in one
  record of parameters; the two files the scripts read and write are an explicit state.
\<close>

section \<open>Data model\<close>

text \<open>
  JS strings are modelled as HOL strings, read as the bytes of their UTF-8 encoding;
  \<^verbatim>\<open>===\<close> on two strings is equality.

  The canonical record that both scripts build (\<^verbatim>\<open>fetchRSS\<close>, lines 116-124, and
  \<^verbatim>\<open>fetchWithPuppeteer\<close>, lines 367-376). The field \<^verbatim>\<open>id\<close> is written \<open>id'\<close>,
  since \<open>id\<close> is the identity function of HOL. \<^verbatim>\<open>author\<close> exists only on scraped
  articles.
\<close>

record article =
  id' :: string
  title :: string
  description :: string
  link :: string
  pubDate :: string
  source :: string
  category :: string
  author :: "string option"

text \<open>An entry of \<^verbatim>\<open>rss.json\<close>: \<^verbatim>\<open>{id, title, url, category}\<close>.\<close>

record sourceDescriptor =
  srcId :: string
  srcTitle :: string
  srcUrl :: string
  srcCategory :: string

text \<open>
  An item of a parsed feed. Every property the script reads may be missing
  (\<^verbatim>\<open>undefined\<close>), which is \<open>None\<close>. A feed may lack \<^verbatim>\<open>items\<close> altogether.
\<close>

record feedItem =
  itemTitle :: "string option"
  contentSnippet :: "string option"
  itemDescription :: "string option"
  itemLink :: "string option"
  itemPubDate :: "string option"
  isoDate :: "string option"

record feed =
  items :: "feedItem list option"

text \<open>
  What \<^verbatim>\<open>extractData_chinaepi\<close> pushes for one group of table rows (lines 281-290).
  It has no \<^verbatim>\<open>description\<close> property.
\<close>

record rawItem =
  rawTitle :: string
  rawAuthor :: string
  rawPubDate :: string
  rawLink :: string
  abstractLink :: string
  pdfLink :: string
  htmlLink :: string

text \<open>
  The environment of a run.
  \<^item> \<open>parseDate s\<close> is the time value of \<^verbatim>\<open>new Date(s)\<close> in milliseconds, \<open>None\<close> for
    an invalid date (time value \<^verbatim>\<open>NaN\<close>). Time values are integers of magnitude at most
    \<open>8.64 * 10^15\<close>, so the differences and the division by the length of a day that the
    scripts compute on them are what integer arithmetic gives.
  \<^item> \<open>localeCompare a b\<close> is \<^verbatim>\<open>a.localeCompare(b)\<close>.
  \<^item> \<open>now\<close> is the time value of \<^verbatim>\<open>new Date()\<close>, \<open>nowIso\<close> its
    \<^verbatim>\<open>toISOString()\<close>, \<open>fullYear\<close> and \<open>monthIndex\<close> its \<^verbatim>\<open>getFullYear()\<close> and
    \<^verbatim>\<open>getMonth()\<close>. The clock is read as one instant for the whole run.
  \<^item> \<open>net source\<close> is how the race of \<^verbatim>\<open>parser.parseURL(source.url)\<close> against the
    15 second timer ends: \<open>Inr\<close> the feed, or \<open>Inl\<close> the message of the error it rejects
    with (\<^verbatim>\<open>'Timeout'\<close> when the timer wins).
  \<^item> \<open>browse url\<close> is how the browser session for a listing page goes, see \<open>session\<close>.
\<close>

text \<open>
  One call of \<^verbatim>\<open>fetchWithPuppeteer\<close> opens one browser session. \<^verbatim>\<open>puppeteer.launch\<close>
  (line 307) stands before the \<^verbatim>\<open>try\<close>: when it throws, the session is \<open>LaunchFailed\<close>
  with the message of the error. Otherwise the session is \<open>Launched body closing\<close>:
  \<open>body\<close> is how the page work inside the \<^verbatim>\<open>try\<close> ends (setting up the page,
  navigating, waiting, extracting), \<open>Inr\<close> the items that the extraction gives or \<open>Inl\<close>
  the message of the error thrown there; \<open>closing\<close> is the message of the error that
  \<^verbatim>\<open>browser.close()\<close> throws in the \<^verbatim>\<open>finally\<close> (line 384), \<open>None\<close> when it closes.
\<close>

datatype session =
  LaunchFailed string
| Launched "string + rawItem list" "string option"

record env =
  parseDate :: "string \<Rightarrow> int option"
  localeCompare :: "string \<Rightarrow> string \<Rightarrow> int"
  now :: int
  nowIso :: string
  fullYear :: int
  monthIndex :: int
  net :: "sourceDescriptor \<Rightarrow> string + feed"
  browse :: "string \<Rightarrow> session"

text \<open>
  What \<^verbatim>\<open>JSON.parse\<close> gives for \<^verbatim>\<open>articles.json\<close>, as far as the scripts tell values
  apart: a list of article records, or a value that the spread
  \<^verbatim>\<open>[...existingArticles, ...allArticles]\<close> rejects (an object, a number, a boolean,
  \<^verbatim>\<open>null\<close>), with the message of the \<^verbatim>\<open>TypeError\<close> that the spread throws. The scripts
  check nothing about the parsed value. A JSON string and a list that holds anything but
  article records are not among the values of the model.
\<close>

datatype json =
  Articles "article list"
| NotIterable string

text \<open>
  The two files. \<open>articlesFile\<close> is \<^verbatim>\<open>articles.json\<close>: \<open>None\<close> when the file is missing
  or does not parse, otherwise the value it parses to (\<^verbatim>\<open>JSON.stringify\<close> followed by
  \<^verbatim>\<open>JSON.parse\<close> gives the same list of records back). \<open>logFile\<close> is the text of
  \<^verbatim>\<open>log.txt\<close>, \<open>None\<close> when the file does not exist. The file system takes every write.
\<close>

record disk =
  articlesFile :: "json option"
  logFile :: "string option"

text \<open>How a run ends: the files it leaves and the exit code of the process.\<close>

record runResult =
  files :: disk
  exitCode :: int

section \<open>JavaScript built-ins\<close>

text \<open>
  \<^verbatim>\<open>a || b\<close> on values that are a string or \<^verbatim>\<open>undefined\<close>: \<^verbatim>\<open>undefined\<close> and the
  empty string are falsy. \<open>orElse\<close> is the case where the right operand is always a string.
\<close>

definition truthy :: "string option \<Rightarrow> bool" where
  "truthy v = (case v of None \<Rightarrow> False | Some s \<Rightarrow> s \<noteq> [])"

definition jsOr :: "string option \<Rightarrow> string option \<Rightarrow> string option" where
  "jsOr a b = (if truthy a then a else b)"

definition orElse :: "string option \<Rightarrow> string \<Rightarrow> string" where
  "orElse a d = (case a of None \<Rightarrow> d | Some s \<Rightarrow> if s = [] then d else s)"

text \<open>
  \<^verbatim>\<open>Array.prototype.findIndex\<close>: the index of the first element that satisfies the
  predicate, \<open>-1\<close> when there is none. The second argument is the running index.
\<close>

fun findIndexFrom :: "('a \<Rightarrow> bool) \<Rightarrow> nat \<Rightarrow> 'a list \<Rightarrow> int" where
  "findIndexFrom p k [] = -1"
| "findIndexFrom p k (x # xs) = (if p x then int k else findIndexFrom p (Suc k) xs)"

definition findIndex :: "('a \<Rightarrow> bool) \<Rightarrow> 'a list \<Rightarrow> int" where
  "findIndex p xs = findIndexFrom p 0 xs"

text \<open>
  \<^verbatim>\<open>Array.prototype.filter\<close> with the three-argument callback
  \<^verbatim>\<open>(element, index, self)\<close>: \<open>self\<close> is the whole array, \<open>k\<close> the running index.
\<close>

fun filterFrom :: "('a \<Rightarrow> nat \<Rightarrow> 'a list \<Rightarrow> bool) \<Rightarrow> nat \<Rightarrow> 'a list \<Rightarrow> 'a list \<Rightarrow> 'a list" where
  "filterFrom f k self [] = []"
| "filterFrom f k self (x # xs) =
     (if f x k self then x # filterFrom f (Suc k) self xs else filterFrom f (Suc k) self xs)"

definition filterIndexed :: "('a \<Rightarrow> nat \<Rightarrow> 'a list \<Rightarrow> bool) \<Rightarrow> 'a list \<Rightarrow> 'a list" where
  "filterIndexed f xs = filterFrom f 0 xs xs"

text \<open>
  \<^verbatim>\<open>Array.prototype.sort(comparefn)\<close>. ECMAScript reads the comparator's result through
  \<open>SortCompare\<close>, which turns \<^verbatim>\<open>NaN\<close> (here \<open>None\<close>) into \<open>+0\<close>. The sort is stable, and
  for a consistent comparator its result is the one stable ordering; for any other
  comparator the order is left to the implementation. The model is the stable insertion
  sort, which inserts every element in front of the first element that it does not
  follow.
\<close>

definition sortCompare :: "('a \<Rightarrow> 'a \<Rightarrow> int option) \<Rightarrow> 'a \<Rightarrow> 'a \<Rightarrow> int" where
  "sortCompare comparefn x y = (case comparefn x y of None \<Rightarrow> 0 | Some v \<Rightarrow> v)"

fun insertSorted :: "('a \<Rightarrow> 'a \<Rightarrow> int option) \<Rightarrow> 'a \<Rightarrow> 'a list \<Rightarrow> 'a list" where
  "insertSorted comparefn x [] = [x]"
| "insertSorted comparefn x (y # ys) =
     (if sortCompare comparefn x y \<le> 0 then x # y # ys
      else y # insertSorted comparefn x ys)"

definition arraySort :: "('a \<Rightarrow> 'a \<Rightarrow> int option) \<Rightarrow> 'a list \<Rightarrow> 'a list" where
  "arraySort comparefn xs = foldr (insertSorted comparefn) xs []"

text \<open>Strings: \<^verbatim>\<open>split\<close> at a character, \<^verbatim>\<open>join\<close>, \<^verbatim>\<open>startsWith\<close>, \<^verbatim>\<open>includes\<close> (\<open>includesStr\<close>).\<close>

fun splitOn :: "char \<Rightarrow> string \<Rightarrow> string list" where
  "splitOn c [] = [[]]"
| "splitOn c (x # xs) =
     (if x = c then [] # splitOn c xs
      else (case splitOn c xs of [] \<Rightarrow> [[x]] | l # ls \<Rightarrow> (x # l) # ls))"

fun joinWith :: "string \<Rightarrow> string list \<Rightarrow> string" where
  "joinWith sep [] = []"
| "joinWith sep [l] = l"
| "joinWith sep (l # m # ls) = l @ sep @ joinWith sep (m # ls)"

definition startsWith :: "string \<Rightarrow> string \<Rightarrow> bool" where
  "startsWith s p = (take (length p) s = p)"

fun includesStr :: "string \<Rightarrow> string \<Rightarrow> bool" where
  "includesStr [] sub = (sub = [])"
| "includesStr (c # cs) sub = (startsWith (c # cs) sub \<or> includesStr cs sub)"

text \<open>
  \<^verbatim>\<open>String.prototype.trim\<close> strips white space and line terminators from both ends.
  The characters below are the ones of a single byte: tab, line feed, vertical tab, form
  feed, carriage return and space. The white space of Unicode beyond ASCII takes several
  bytes and is left out.
\<close>

definition newline :: char where
  "newline = CHR 0x0A"

definition isWhiteSpace :: "char \<Rightarrow> bool" where
  "isWhiteSpace c = (c \<in> set [CHR 0x09, CHR 0x0A, CHR 0x0B, CHR 0x0C, CHR 0x0D, CHR 0x20])"

definition trim :: "string \<Rightarrow> string" where
  "trim s = rev (dropWhile isWhiteSpace (rev (dropWhile isWhiteSpace s)))"

text \<open>
  The decimal text of an integer, as a template literal prints a number that is an
  integer below \<open>10^21\<close> in magnitude.
\<close>

definition digitChar :: "nat \<Rightarrow> char" where
  "digitChar d = ''0123456789'' ! d"

function showNat :: "nat \<Rightarrow> string" where
  "showNat n = (if n < 10 then [digitChar n] else showNat (n div 10) @ [digitChar (n mod 10)])"
  by pat_completeness auto
termination
  by (relation "measure (\<lambda>n. n)") auto

declare showNat.simps [simp del]

definition showInt :: "int \<Rightarrow> string" where
  "showInt i = (if i < 0 then CHR ''-'' # showNat (nat (- i)) else showNat (nat i))"

section \<open>Deduplication, merge and sort\<close>

text \<open>
  The idiom used four times in the source (lines 127-129, 150-152, 457-459, 477-479):
  \<^verbatim>\<open>xs.filter((article, index, self) => index === self.findIndex(t => t.title === article.title))\<close>
\<close>

definition dedupByTitle :: "article list \<Rightarrow> article list" where
  "dedupByTitle xs =
     filterIndexed (\<lambda>article index self.
        int index = findIndex (\<lambda>t. title t = title article) self) xs"

text \<open>
  Lines 149-152 and 476-479: the existing corpus is put in front of the newly fetched
  articles and the concatenation is deduplicated.
\<close>

definition mergeArticles :: "article list \<Rightarrow> article list \<Rightarrow> article list" where
  "mergeArticles existingArticles allArticles = dedupByTitle (existingArticles @ allArticles)"

text \<open>
  A recursive reading of the idiom, used in the proofs only: walk the list with the set of
  titles already seen and keep an element exactly when its title is new.
\<close>

fun keepUnseen :: "string set \<Rightarrow> article list \<Rightarrow> article list" where
  "keepUnseen seen [] = []"
| "keepUnseen seen (x # xs) =
     (if title x \<in> seen then keepUnseen seen xs
      else x # keepUnseen (insert (title x) seen) xs)"

text \<open>
  The comparator of lines 155-162 and 482-489. The difference of two dates is \<^verbatim>\<open>NaN\<close>
  as soon as one of them is invalid. The sort reads the sign of the result only, and the
  sign of the difference of two time values is the sign of their difference as integers.
\<close>

definition compareArticles :: "env \<Rightarrow> article \<Rightarrow> article \<Rightarrow> int option" where
  "compareArticles e a b =
     (if id' a \<noteq> id' b then Some (localeCompare e (id' a) (id' b))
      else (case (parseDate e (pubDate b), parseDate e (pubDate a)) of
              (Some tb, Some ta) \<Rightarrow> Some (tb - ta)
            | _ \<Rightarrow> None))"

definition sortArticles :: "env \<Rightarrow> article list \<Rightarrow> article list" where
  "sortArticles e uniqueArticles = arraySort (compareArticles e) uniqueArticles"

section \<open>Recency filter\<close>

text \<open>
  \<^verbatim>\<open>filter_latest\<close> (lines 81-87, and again 388-394). \<^verbatim>\<open>Math.ceil(diffTime / d)\<close> on a
  non-negative integer \<open>diffTime\<close> is \<open>ceilDiv\<close>. With an invalid date every intermediate
  value is \<^verbatim>\<open>NaN\<close> and the final comparison \<^verbatim>\<open>NaN <= latestDays\<close> is false.
\<close>

definition msPerDay :: int where
  "msPerDay = 1000 * 60 * 60 * 24"

definition ceilDiv :: "int \<Rightarrow> int \<Rightarrow> int" where
  "ceilDiv x d = - ((- x) div d)"

definition filter_latest :: "env \<Rightarrow> article \<Rightarrow> int \<Rightarrow> bool" where
  "filter_latest e article latestDays =
     (case parseDate e (pubDate article) of
        None \<Rightarrow> False
      | Some date \<Rightarrow>
          (let diffTime = \<bar>now e - date\<bar>;
               diffDays = ceilDiv diffTime msPerDay
           in diffDays \<le> latestDays))"

section \<open>Run log\<close>

text \<open>
  \<^verbatim>\<open>writeLog\<close> (lines 14-44), as a function of the log file's text. A missing file is
  created empty first. The \<^verbatim>\<open>try\<close> around the body guards file system errors, which the
  model does not have.
\<close>

definition timestamp :: "env \<Rightarrow> string" where
  "timestamp e = hd (splitOn (CHR ''T'') (nowIso e))"

definition writeLog :: "env \<Rightarrow> string \<Rightarrow> string option \<Rightarrow> string option" where
  "writeLog e message lf =
     (let logEntry = timestamp e @ '': '' @ message @ [newline];
          existingLogs = (case lf of None \<Rightarrow> [] | Some text \<Rightarrow> text);
          lines = filter (\<lambda>line. trim line \<noteq> []) (splitOn newline existingLogs);
          todayLog = find (\<lambda>line. startsWith line (timestamp e)) lines
      in case todayLog of
           Some _ \<Rightarrow>
             (let updatedLogs =
                    joinWith [newline]
                      (map (\<lambda>line. if startsWith line (timestamp e) then trim logEntry else line) lines)
              in Some (updatedLogs @ [newline]))
         | None \<Rightarrow> Some (existingLogs @ logEntry))"

section \<open>The feed script\<close>

text \<open>
  Reading the existing corpus (lines 96-105, and again 402-411): a missing file and a
  file that does not parse both leave \<^verbatim>\<open>existingArticles\<close> the empty list; any value
  that parses is taken as it is.
\<close>

definition readExistingArticles :: "disk \<Rightarrow> json" where
  "readExistingArticles fs = (case articlesFile fs of None \<Rightarrow> Articles [] | Some v \<Rightarrow> v)"

text \<open>
  \<^verbatim>\<open>[...existingArticles, ...allArticles]\<close> (lines 149 and 476): \<open>Inl\<close> the message of the
  error when the existing value cannot be spread.
\<close>

definition spreadArticles :: "json \<Rightarrow> article list \<Rightarrow> string + article list" where
  "spreadArticles existingArticles allArticles =
     (case existingArticles of
        Articles xs \<Rightarrow> Inr (xs @ allArticles)
      | NotIterable message \<Rightarrow> Inl message)"

text \<open>
  \<^verbatim>\<open>fetchWithTimeout\<close> (lines 65-78): whatever error ends the race is printed on the
  console and the function returns \<^verbatim>\<open>null\<close>. The source descriptor, \<^verbatim>\<open>source\<close> in
  the scripts, is \<open>src\<close> throughout, since \<open>source\<close> is a field of the article. Console
  output is diagnostic and is not part of the model.
\<close>

definition fetchWithTimeout :: "env \<Rightarrow> sourceDescriptor \<Rightarrow> feed option" where
  "fetchWithTimeout e src = (case net e src of Inl error \<Rightarrow> None | Inr feed \<Rightarrow> Some feed)"

text \<open>The object built for one feed item (lines 116-124).\<close>

definition toArticle :: "env \<Rightarrow> sourceDescriptor \<Rightarrow> feedItem \<Rightarrow> article" where
  "toArticle e src item =
     \<lparr>id' = srcId src,
      title = orElse (itemTitle item) [],
      description = orElse (jsOr (contentSnippet item) (itemDescription item)) [],
      link = orElse (itemLink item) [],
      pubDate = orElse (jsOr (itemPubDate item) (isoDate item)) (nowIso e),
      source = srcTitle src,
      category = srcCategory src,
      author = None\<rparr>"

text \<open>
  The body of the \<^verbatim>\<open>try\<close> of the loop (lines 109-137) for one source: \<open>Inl\<close> the
  message of the error it throws, or \<open>Inr\<close> the articles it adds to \<^verbatim>\<open>allArticles\<close>.
\<close>

definition fetchSource :: "env \<Rightarrow> sourceDescriptor \<Rightarrow> string + article list" where
  "fetchSource e src =
     (case fetchWithTimeout e src of
        None \<Rightarrow> Inl ''No feed or items found''
      | Some feed \<Rightarrow>
          (case items feed of
             None \<Rightarrow> Inl ''No feed or items found''
           | Some its \<Rightarrow>
               (let articles = map (toArticle e src) its;
                    articles = dedupByTitle articles;
                    articles =
                      (if srcId src \<in> set [''MMWR'', ''EJD'', ''Epidemiology'', ''AJPH'']
                       then filter (\<lambda>article. filter_latest e article 60) articles
                       else articles)
                in Inr articles)))"

text \<open>
  The loop over \<^verbatim>\<open>rssConfig\<close> (lines 107-142), threading \<^verbatim>\<open>allArticles\<close> and
  \<^verbatim>\<open>errorSources\<close>. The \<^verbatim>\<open>catch\<close> records the source's title and the message.
\<close>

fun fetchLoop :: "env \<Rightarrow> sourceDescriptor list \<Rightarrow> article list \<times> string list
    \<Rightarrow> article list \<times> string list" where
  "fetchLoop e [] acc = acc"
| "fetchLoop e (src # rest) (allArticles, errorSources) =
     (case fetchSource e src of
        Inr articles \<Rightarrow> fetchLoop e rest (allArticles @ articles, errorSources)
      | Inl message \<Rightarrow>
          fetchLoop e rest
            (allArticles, errorSources @ [srcTitle src @ '' ('' @ message @ '')'']))"

text \<open>
  The outer \<^verbatim>\<open>catch\<close> of \<^verbatim>\<open>fetchRSS\<close> (lines 190-194): the error's message goes to the
  run log and the process exits with code 1. Nothing has been written to the corpus file.
\<close>

definition criticalError :: "env \<Rightarrow> string \<Rightarrow> disk \<Rightarrow> runResult" where
  "criticalError e message fs =
     \<lparr>files = fs\<lparr>logFile := writeLog e (''Critical error: '' @ message) (logFile fs)\<rparr>,
      exitCode = 1\<rparr>"

text \<open>
  \<^verbatim>\<open>fetchRSS\<close> (lines 89-195). With no article fetched it throws (line 145); with an
  existing value that cannot be spread line 149 throws. Both errors reach the outer
  \<^verbatim>\<open>catch\<close>.
\<close>

definition fetchRSS :: "env \<Rightarrow> sourceDescriptor list \<Rightarrow> disk \<Rightarrow> runResult" where
  "fetchRSS e rssConfig fs =
     (let existingArticles = readExistingArticles fs;
          (allArticles, errorSources) = fetchLoop e rssConfig ([], [])
      in if allArticles = [] then
           criticalError e ''No articles were fetched from any source'' fs
         else
           (case spreadArticles existingArticles allArticles of
              Inl message \<Rightarrow> criticalError e message fs
            | Inr mergedArticles \<Rightarrow>
                (let uniqueArticles = dedupByTitle mergedArticles;
                     uniqueArticles = sortArticles e uniqueArticles;
                     fs = fs\<lparr>articlesFile := Some (Articles uniqueArticles)\<rparr>;
                     fs = (if errorSources \<noteq> [] then
                             fs\<lparr>logFile :=
                               writeLog e (''Failed sources: '' @ joinWith ''; '' errorSources)
                                 (logFile fs)\<rparr>
                           else
                             fs\<lparr>logFile :=
                               writeLog e ''All sources fetched successfully'' (logFile fs)\<rparr>)
                 in \<lparr>files = fs, exitCode = 0\<rparr>)))"

section \<open>The scraping script\<close>

text \<open>The source id \<^verbatim>\<open>SpecialRssIds\<close> holds (line 212), as UTF-8 bytes.\<close>

definition zhonghuaLiubing :: string where
  "zhonghuaLiubing =
     [CHR 0xE4, CHR 0xB8, CHR 0xAD, CHR 0xE5, CHR 0x8D, CHR 0x8E,
      CHR 0xE6, CHR 0xB5, CHR 0x81, CHR 0xE7, CHR 0x97, CHR 0x85]"

definition SpecialRssIds :: "string list" where
  "SpecialRssIds = [zhonghuaLiubing]"

text \<open>The object built for one extracted item (lines 367-376).\<close>

definition formatItem :: "env \<Rightarrow> sourceDescriptor \<Rightarrow> rawItem \<Rightarrow> article" where
  "formatItem e src item =
     \<lparr>id' = srcId src,
      title = orElse (Some (rawTitle item)) [],
      description = orElse None [],
      link = orElse (Some (rawLink item)) [],
      pubDate = orElse (Some (rawPubDate item)) (nowIso e),
      source = srcTitle src,
      category = srcCategory src,
      author = Some (orElse (Some (rawAuthor item)) [])\<rparr>"

text \<open>
  \<^verbatim>\<open>fetchWithPuppeteer\<close> (lines 306-386). An error of the launch leaves the function
  (\<open>Inl\<close>). Inside the \<^verbatim>\<open>try\<close> every error, the unsupported URL pattern included, is
  caught and gives \<^verbatim>\<open>null\<close> (\<open>Inr None\<close>). The \<^verbatim>\<open>finally\<close> closes the browser, and an
  error of the close leaves the function in the place of whatever the \<^verbatim>\<open>try\<close> was about
  to return.
\<close>

definition fetchWithPuppeteer :: "env \<Rightarrow> string \<Rightarrow> sourceDescriptor \<Rightarrow> string + article list option" where
  "fetchWithPuppeteer e url src =
     (case browse e url of
        LaunchFailed message \<Rightarrow> Inl message
      | Launched body closing \<Rightarrow>
          (let formattedItems =
                 (case body of
                    Inl error \<Rightarrow> None
                  | Inr articles \<Rightarrow>
                      if includesStr url ''chinaepi.icdc.cn''
                      then Some (map (formatItem e src) articles)
                      else None)
           in case closing of
                Some message \<Rightarrow> Inl message
              | None \<Rightarrow> Inr formattedItems))"

text \<open>The listing page of one issue (line 440).\<close>

definition issueUrl :: "int \<Rightarrow> int \<Rightarrow> string" where
  "issueUrl year month =
     ''http://chinaepi.icdc.cn/zhlxbx/ch/reader/issue_list.aspx?year_id='' @ showInt year @
     ''&quarter_id='' @ showInt month"

text \<open>The loop \<^verbatim>\<open>for (let i = 0; i < 3; i++)\<close> of lines 430-441.\<close>

function generateUrls :: "int \<Rightarrow> int \<Rightarrow> int \<Rightarrow> string list \<Rightarrow> string list" where
  "generateUrls currentYear currentMonth i urls =
     (if i < 3 then
        (let year = currentYear;
             month = currentMonth - i;
             (month, year) = (if month < 1 then (month + 12, year - 1) else (month, year))
         in generateUrls currentYear currentMonth (i + 1) (urls @ [issueUrl year month]))
      else urls)"
  by pat_completeness auto
termination
  by (relation "measure (\<lambda>(currentYear, currentMonth, i, urls). nat (3 - i))") auto

declare generateUrls.simps [simp del]

definition sourceUrls :: "env \<Rightarrow> sourceDescriptor \<Rightarrow> string list" where
  "sourceUrls e src =
     (if srcId src = zhonghuaLiubing then
        (let currentYear = fullYear e;
             currentMonth = monthIndex e + 1
         in generateUrls currentYear currentMonth 0 [])
      else [srcUrl src])"

text \<open>
  The loop over the URLs of one source (lines 448-469), inside the \<^verbatim>\<open>try\<close> of the
  source (lines 419-472). An error that leaves \<^verbatim>\<open>fetchWithPuppeteer\<close> ends the loop: the
  \<^verbatim>\<open>catch\<close> of the source prints it, and \<^verbatim>\<open>allArticles\<close> keeps what the earlier URLs
  added.
\<close>

fun fetchUrls :: "env \<Rightarrow> sourceDescriptor \<Rightarrow> string list \<Rightarrow> article list \<Rightarrow> article list" where
  "fetchUrls e src [] allArticles = allArticles"
| "fetchUrls e src (url # urls) allArticles =
     (case fetchWithPuppeteer e url src of
        Inl error \<Rightarrow> allArticles
      | Inr None \<Rightarrow> fetchUrls e src urls allArticles
      | Inr (Some data) \<Rightarrow>
          (let articles = data;
               articles = dedupByTitle articles;
               articles =
                 (if srcId src \<in> set [zhonghuaLiubing]
                  then filter (\<lambda>article. filter_latest e article 90) articles
                  else articles)
           in fetchUrls e src urls (allArticles @ articles)))"

text \<open>The loop over the special sources (lines 418-473).\<close>

fun fetchSpecialLoop :: "env \<Rightarrow> sourceDescriptor list \<Rightarrow> article list \<Rightarrow> article list" where
  "fetchSpecialLoop e [] allArticles = allArticles"
| "fetchSpecialLoop e (src # rest) allArticles =
     fetchSpecialLoop e rest (fetchUrls e src (sourceUrls e src) allArticles)"

text \<open>
  \<^verbatim>\<open>fetchSpecialRSS\<close> (lines 396-510). There is no test on the number of fetched
  articles and no call of \<^verbatim>\<open>process.exit\<close> on the path that writes: the corpus is written
  and the process ends with code 0 once the function returns. An existing value that
  cannot be spread makes line 476 throw; the outer \<^verbatim>\<open>catch\<close> (lines 506-509) prints the
  error and exits with code 1, and no file is touched.
\<close>

definition fetchSpecialRSS :: "env \<Rightarrow> string list \<Rightarrow> sourceDescriptor list \<Rightarrow> disk \<Rightarrow> runResult" where
  "fetchSpecialRSS e ids rssConfig fs =
     (let existingArticles = readExistingArticles fs;
          specialSources = filter (\<lambda>src. srcId src \<in> set ids) rssConfig;
          allArticles = fetchSpecialLoop e specialSources []
      in case spreadArticles existingArticles allArticles of
           Inl message \<Rightarrow> \<lparr>files = fs, exitCode = 1\<rparr>
         | Inr mergedArticles \<Rightarrow>
             (let uniqueArticles = dedupByTitle mergedArticles;
                  uniqueArticles = sortArticles e uniqueArticles
              in \<lparr>files = fs\<lparr>articlesFile := Some (Articles uniqueArticles)\<rparr>, exitCode = 0\<rparr>))"

section \<open>Notions of the specification\<close>

text \<open>
  The order the specification asks of two neighbours of the written corpus: the first
  id is at most the second under \<^verbatim>\<open>localeCompare\<close>, and with equal ids the first date is
  at least the second. Dates are compared as JavaScript compares two \<^verbatim>\<open>Date\<close> objects
  with \<^verbatim>\<open>>=\<close>: the comparison is false as soon as one of them is invalid.
\<close>

definition pubDateGe :: "env \<Rightarrow> article \<Rightarrow> article \<Rightarrow> bool" where
  "pubDateGe e a b =
     (case (parseDate e (pubDate a), parseDate e (pubDate b)) of
        (Some ta, Some tb) \<Rightarrow> tb \<le> ta
      | _ \<Rightarrow> False)"

definition orderedPair :: "env \<Rightarrow> article \<Rightarrow> article \<Rightarrow> bool" where
  "orderedPair e a b =
     (localeCompare e (id' a) (id' b) \<le> 0 \<and> (if id' a = id' b then pubDateGe e a b else True))"

text \<open>Two articles are tied on both keys: the same id and the same date.\<close>

definition tied :: "env \<Rightarrow> article \<Rightarrow> article \<Rightarrow> bool" where
  "tied e k a = (id' a = id' k \<and> parseDate e (pubDate a) = parseDate e (pubDate k))"

text \<open>
  What ECMAScript asks of \<^verbatim>\<open>localeCompare\<close> as a comparator, on a set of ids: the sign
  flips with the arguments, "at most" is transitive. The last line asks that the
  collation tells any two different ids of the set apart.
\<close>

definition consistentCollation :: "(string \<Rightarrow> string \<Rightarrow> int) \<Rightarrow> string set \<Rightarrow> bool" where
  "consistentCollation lc ids =
     ((\<forall>x \<in> ids. \<forall>y \<in> ids. (lc x y < 0) = (0 < lc y x)) \<and>
      (\<forall>x \<in> ids. \<forall>y \<in> ids. \<forall>z \<in> ids. lc x y \<le> 0 \<and> lc y z \<le> 0 \<longrightarrow> lc x z \<le> 0) \<and>
      (\<forall>x \<in> ids. \<forall>y \<in> ids. lc x y = 0 \<longrightarrow> x = y))"

text \<open>
  The month before a month of a year, months counted from 1 to 12: the month before
  January is December of the year before.
\<close>

definition previousMonth :: "int \<times> int \<Rightarrow> int \<times> int" where
  "previousMonth ym = (case ym of (y, m) \<Rightarrow> if m = 1 then (y - 1, 12) else (y, m - 1))"

text \<open>
  What the browser tells about a listing page. \<open>pageItems\<close> are the items that the
  extraction finds on a page of the host \<^verbatim>\<open>chinaepi.icdc.cn\<close>: \<open>None\<close> when the browser
  does not start, when the work on the page ends with an error or when the URL is of
  another host. The session of a page breaks when the browser does not start or does not
  close. \<open>reachedUrls\<close> are the URLs of a list that come before the first one whose
  session breaks.
\<close>

definition pageItems :: "env \<Rightarrow> string \<Rightarrow> rawItem list option" where
  "pageItems e url =
     (case browse e url of
        LaunchFailed message \<Rightarrow> None
      | Launched body closing \<Rightarrow>
          (case body of
             Inl error \<Rightarrow> None
           | Inr found \<Rightarrow> if includesStr url ''chinaepi.icdc.cn'' then Some found else None))"

definition sessionBreaks :: "env \<Rightarrow> string \<Rightarrow> bool" where
  "sessionBreaks e url =
     (case browse e url of LaunchFailed message \<Rightarrow> True | Launched body closing \<Rightarrow> closing \<noteq> None)"

definition reachedUrls :: "env \<Rightarrow> string list \<Rightarrow> string list" where
  "reachedUrls e urls = takeWhile (\<lambda>url. \<not> sessionBreaks e url) urls"

text \<open>
  The run log as the specification sees it: a list of lines, each ended by a line feed
  in the file. A date key is ten characters, \<open>YYYY-MM-DD\<close>. A write puts today's entry
  in the place of the line of today when there is one, and after the last line
  otherwise; a line that is put in the place of another has lost the white space at its
  end, as \<^verbatim>\<open>logEntry.trim()\<close> has.
\<close>

definition logText :: "string list \<Rightarrow> string" where
  "logText ls = concat (map (\<lambda>line. line @ [newline]) ls)"

definition isDigit :: "char \<Rightarrow> bool" where
  "isDigit c = (c \<in> set ''0123456789'')"

definition isIsoDate :: "string \<Rightarrow> bool" where
  "isIsoDate d =
     (length d = 10 \<and>
      list_all (\<lambda>(i, c). if i = 4 \<or> i = 7 then c = CHR ''-'' else isDigit c) (enumerate 0 d))"

definition putEntry :: "string \<Rightarrow> string \<Rightarrow> string list \<Rightarrow> string list" where
  "putEntry today message ls =
     (if list_ex (\<lambda>line. startsWith line today) ls
      then map (\<lambda>line. if startsWith line today then trim (today @ '': '' @ message) else line) ls
      else ls @ [today @ '': '' @ message])"

definition putEntries :: "(env \<times> string) list \<Rightarrow> string list" where
  "putEntries writes = foldl (\<lambda>ls (e, message). putEntry (timestamp e) message ls) [] writes"

text \<open>A sequence of calls of \<^verbatim>\<open>writeLog\<close>, each with the environment of its run.\<close>

fun writeLogs :: "(env \<times> string) list \<Rightarrow> string option \<Rightarrow> string option" where
  "writeLogs [] lf = lf"
| "writeLogs ((e, message) # writes) lf = writeLogs writes (writeLog e message lf)"

text \<open>
  The shape of the lines that \<^verbatim>\<open>writeLog\<close> reads back as they were written: no line
  holds a line feed and no line is blank.
\<close>

definition wellFormedLog :: "string list \<Rightarrow> bool" where
  "wellFormedLog ls = list_all (\<lambda>line. newline \<notin> set line \<and> trim line \<noteq> []) ls"

text \<open>
  A source fails when the race of its fetch ends with an error, whatever the error, or
  when the feed it gives has no \<^verbatim>\<open>items\<close>. \<open>articlesOf\<close> is what a source should add to
  the fetched articles: nothing when it fails, otherwise one article for every item of
  its feed, deduplicated by title, and cut down to the last 60 days for the four sources
  of the recency allow-list.
\<close>

definition sourceFails :: "env \<Rightarrow> sourceDescriptor \<Rightarrow> bool" where
  "sourceFails e src = (case net e src of Inl error \<Rightarrow> True | Inr feed \<Rightarrow> items feed = None)"

definition articlesOf :: "env \<Rightarrow> sourceDescriptor \<Rightarrow> article list" where
  "articlesOf e src =
     (case net e src of
        Inl error \<Rightarrow> []
      | Inr feed \<Rightarrow>
          (case items feed of
             None \<Rightarrow> []
           | Some its \<Rightarrow>
               filter (\<lambda>article. srcId src \<in> {''MMWR'', ''EJD'', ''Epidemiology'', ''AJPH''}
                                  \<longrightarrow> filter_latest e article 60)
                 (dedupByTitle (map (toArticle e src) its))))"

section \<open>Example data\<close>

text \<open>Concrete articles, sources, feeds and environments on which the theorems are run.\<close>

definition exampleArticle :: "string \<Rightarrow> string \<Rightarrow> string \<Rightarrow> string \<Rightarrow> article" where
  "exampleArticle i t d p =
     \<lparr>id' = i, title = t, description = d, link = [], pubDate = p, source = [],
      category = [], author = None\<rparr>"

text \<open>A collation that compares two strings character by character, by code.\<close>

fun compareCodes :: "string \<Rightarrow> string \<Rightarrow> int" where
  "compareCodes [] [] = 0"
| "compareCodes [] (y # ys) = -1"
| "compareCodes (x # xs) [] = 1"
| "compareCodes (x # xs) (y # ys) =
     (if (of_char x :: nat) < of_char y then -1
      else if (of_char y :: nat) < of_char x then 1
      else compareCodes xs ys)"

text \<open>
  A date parser that knows four instants: the first of May 2024 at midnight UTC, the
  days 60 and 61 days before it, and the tenth of April 2024. Every other text is an
  invalid date.
\<close>

definition exampleParseDate :: "string \<Rightarrow> int option" where
  "exampleParseDate s =
     (if s = ''2024-05-01T00:00:00.000Z'' then Some 1714521600000
      else if s = ''2024-04-10T00:00:00.000Z'' then Some 1712707200000
      else if s = ''2024-03-02T00:00:00.000Z'' then Some 1709337600000
      else if s = ''2024-03-01T00:00:00.000Z'' then Some 1709251200000
      else None)"

definition exampleItem :: "string \<Rightarrow> string \<Rightarrow> feedItem" where
  "exampleItem t p =
     \<lparr>itemTitle = Some t, contentSnippet = None, itemDescription = None, itemLink = None,
      itemPubDate = Some p, isoDate = None\<rparr>"

definition exampleSource :: "string \<Rightarrow> string \<Rightarrow> sourceDescriptor" where
  "exampleSource i t = \<lparr>srcId = i, srcTitle = t, srcUrl = ''http://'' @ i, srcCategory = ''c''\<rparr>"

text \<open>
  A network on which the source \<open>B\<close> times out, the source \<open>A\<close> gives two items,
  the source \<open>D\<close> two items of which the second has the date text \<open>soon\<close>, the source
  \<open>E\<close> three items of which the first has an empty title and the last has none, and
  every other source one item titled after its id.
\<close>

definition exampleNet :: "sourceDescriptor \<Rightarrow> string + feed" where
  "exampleNet src =
     (if srcId src = ''B'' then Inl ''Timeout''
      else if srcId src = ''A'' then
        Inr \<lparr>items = Some [exampleItem ''a1'' ''2024-04-10T00:00:00.000Z'',
                             exampleItem ''a2'' ''2024-05-01T00:00:00.000Z'']\<rparr>
      else if srcId src = ''D'' then
        Inr \<lparr>items = Some [exampleItem ''d1'' ''2024-04-10T00:00:00.000Z'',
                             exampleItem ''d2'' ''soon'']\<rparr>
      else if srcId src = ''E'' then
        Inr \<lparr>items = Some [exampleItem [] ''2024-04-10T00:00:00.000Z'',
                             exampleItem ''e1'' ''2024-04-10T00:00:00.000Z'',
                             (exampleItem [] ''2024-05-01T00:00:00.000Z'')\<lparr>itemTitle := None\<rparr>]\<rparr>
      else Inr \<lparr>items = Some [exampleItem (srcId src) ''2024-04-10T00:00:00.000Z'']\<rparr>)"

definition exampleRawItem :: "string \<Rightarrow> string \<Rightarrow> rawItem" where
  "exampleRawItem t p =
     \<lparr>rawTitle = t, rawAuthor = ''w'', rawPubDate = p, rawLink = [], abstractLink = [],
      pdfLink = [], htmlLink = []\<rparr>"

text \<open>
  A browser that starts and closes for every page, finds one article on the listing page
  of April 2024 and cannot load any other page.
\<close>

definition exampleBrowse :: "string \<Rightarrow> session" where
  "exampleBrowse url =
     (if url = ''http://chinaepi.icdc.cn/zhlxbx/ch/reader/issue_list.aspx?year_id=2024&quarter_id=4''
      then Launched (Inr [exampleRawItem ''z1'' ''2024-04-10T00:00:00.000Z'']) None
      else Launched (Inl ''net::ERR_CONNECTION_REFUSED'') None)"

definition exampleEnv :: env where
  "exampleEnv =
     \<lparr>parseDate = exampleParseDate, localeCompare = compareCodes,
      now = 1714521600000, nowIso = ''2024-05-01T00:00:00.000Z'',
      fullYear = 2024, monthIndex = 4,
      net = exampleNet, browse = exampleBrowse\<rparr>"

text \<open>The same environment with every source and every page out of reach.\<close>

definition offlineEnv :: env where
  "offlineEnv =
     exampleEnv\<lparr>net := (\<lambda>src. Inl ''Timeout''),
                browse := (\<lambda>url. Launched (Inl ''Timeout'') None)\<rparr>"

text \<open>
  The environment of the examples with a browser that does not start for the listing
  page of May 2024 and goes as before for every other page.
\<close>

definition launchFailsEnv :: env where
  "launchFailsEnv =
     exampleEnv\<lparr>browse := (\<lambda>url.
       if url = ''http://chinaepi.icdc.cn/zhlxbx/ch/reader/issue_list.aspx?year_id=2024&quarter_id=5''
       then LaunchFailed ''Failed to launch the browser process''
       else exampleBrowse url)\<rparr>"

text \<open>An article as \<open>toArticle\<close> builds it for an item of \<open>exampleItem\<close>.\<close>

definition fetchedArticle :: "sourceDescriptor \<Rightarrow> string \<Rightarrow> string \<Rightarrow> article" where
  "fetchedArticle src t p =
     \<lparr>id' = srcId src, title = t, description = [], link = [], pubDate = p,
      source = srcTitle src, category = srcCategory src, author = None\<rparr>"

definition emptyDisk :: disk where
  "emptyDisk = \<lparr>articlesFile = None, logFile = None\<rparr>"

text \<open>A disk whose corpus file holds a JSON object, which parses and cannot be spread.\<close>

definition objectDisk :: disk where
  "objectDisk =
     \<lparr>articlesFile = Some (NotIterable ''existingArticles is not iterable''), logFile = None\<rparr>"


chapter \<open>Properties\<close>

section \<open>Facts about deduplication\<close>

lemma findIndexFrom_absent:
  "\<forall>x \<in> set xs. \<not> p x \<Longrightarrow> findIndexFrom p k xs = -1"
  by (induction xs arbitrary: k) auto

lemma findIndexFrom_bounds:
  "\<exists>x \<in> set xs. p x \<Longrightarrow> int k \<le> findIndexFrom p k xs \<and> findIndexFrom p k xs < int (k + length xs)"
proof (induction xs arbitrary: k)
  case Nil
  then show ?case by simp
next
  case (Cons a xs)
  show ?case
  proof (cases "p a")
    case True
    then show ?thesis by simp
  next
    case False
    with Cons.prems have "\<exists>x \<in> set xs. p x" by simp
    from Cons.IH [OF this, of "Suc k"] False show ?thesis by simp
  qed
qed

lemma findIndexFrom_append:
  "findIndexFrom p k (pre @ suf) =
     (if \<exists>x \<in> set pre. p x then findIndexFrom p k pre else findIndexFrom p (k + length pre) suf)"
  by (induction pre arbitrary: k) auto

lemma findIndex_at_position:
  "findIndex p (pre @ x # suf) = int (length pre) \<longleftrightarrow> p x \<and> (\<forall>y \<in> set pre. \<not> p y)"
proof (cases "\<exists>y \<in> set pre. p y")
  case True
  from findIndexFrom_bounds [OF True, of 0]
  have "findIndexFrom p 0 pre < int (length pre)" by simp
  with True show ?thesis
    by (simp add: findIndex_def findIndexFrom_append)
next
  case False
  show ?thesis
  proof (cases "p x")
    case True
    with False show ?thesis by (simp add: findIndex_def findIndexFrom_append)
  next
    case no: False
    show ?thesis
    proof (cases "\<exists>y \<in> set suf. p y")
      case True
      from findIndexFrom_bounds [OF True, of "Suc (length pre)"]
      have "int (Suc (length pre)) \<le> findIndexFrom p (Suc (length pre)) suf" by simp
      with False no show ?thesis by (simp add: findIndex_def findIndexFrom_append)
    next
      case False
      then have "findIndexFrom p (Suc (length pre)) suf = -1"
        by (simp add: findIndexFrom_absent)
      with \<open>\<not> (\<exists>y \<in> set pre. p y)\<close> no show ?thesis
        by (simp add: findIndex_def findIndexFrom_append)
    qed
  qed
qed

lemma filterFrom_dedup:
  "filterFrom (\<lambda>article index self. int index = findIndex (\<lambda>t. title t = title article) self)
      (length pre) (pre @ suf) suf
   = keepUnseen (title ` set pre) suf"
proof (induction suf arbitrary: pre)
  case Nil
  then show ?case by simp
next
  case (Cons x suf)
  have kept: "(int (length pre) = findIndex (\<lambda>t. title t = title x) (pre @ x # suf))
      \<longleftrightarrow> title x \<notin> title ` set pre"
    using findIndex_at_position [of "\<lambda>t. title t = title x" pre x suf]
    by (auto simp: image_iff)
  from Cons.IH [of "pre @ [x]"]
  have step: "filterFrom (\<lambda>article index self. int index = findIndex (\<lambda>t. title t = title article) self)
      (Suc (length pre)) (pre @ x # suf) suf = keepUnseen (insert (title x) (title ` set pre)) suf"
    by simp
  show ?case
  proof (cases "title x \<in> title ` set pre")
    case True
    then have "insert (title x) (title ` set pre) = title ` set pre" by auto
    with True kept step show ?thesis by simp
  next
    case False
    with kept step show ?thesis by simp
  qed
qed

lemma dedupByTitle_keepUnseen: "dedupByTitle xs = keepUnseen {} xs"
  using filterFrom_dedup [of "[]" xs] by (simp add: dedupByTitle_def filterIndexed_def)

lemma keepUnseen_append:
  "keepUnseen S (xs @ ys) = keepUnseen S xs @ keepUnseen (S \<union> title ` set xs) ys"
  by (induction xs arbitrary: S) (auto simp: insert_absorb)

lemma keepUnseen_titles: "title ` set (keepUnseen S xs) = title ` set xs - S"
  by (induction xs arbitrary: S) auto

lemma keepUnseen_subset: "set (keepUnseen S xs) \<subseteq> set xs"
  by (induction xs arbitrary: S) auto

lemma keepUnseen_not_seen: "a \<in> set (keepUnseen S xs) \<Longrightarrow> title a \<notin> S"
  by (induction xs arbitrary: S) (auto split: if_splits)

lemma keepUnseen_distinct: "distinct (map title (keepUnseen S xs))"
proof (induction xs arbitrary: S)
  case Nil
  then show ?case by simp
next
  case (Cons x xs)
  have "title x \<notin> title ` set (keepUnseen (insert (title x) S) xs)"
    by (simp add: keepUnseen_titles)
  with Cons.IH show ?case by simp
qed

lemma keepUnseen_all_seen: "title ` set xs \<subseteq> S \<Longrightarrow> keepUnseen S xs = []"
  by (induction xs arbitrary: S) auto

lemma keepUnseen_fixpoint:
  "distinct (map title xs) \<Longrightarrow> title ` set xs \<inter> S = {} \<Longrightarrow> keepUnseen S xs = xs"
proof (induction xs arbitrary: S)
  case Nil
  then show ?case by simp
next
  case (Cons x xs)
  from Cons.prems have "title ` set xs \<inter> insert (title x) S = {}" by auto
  with Cons.IH [of "insert (title x) S"] Cons.prems show ?case by auto
qed

lemma dedupByTitle_distinct: "distinct (map title (dedupByTitle xs))"
  by (simp add: dedupByTitle_keepUnseen keepUnseen_distinct)

lemma dedupByTitle_fixpoint: "distinct (map title xs) \<Longrightarrow> dedupByTitle xs = xs"
  by (simp add: dedupByTitle_keepUnseen keepUnseen_fixpoint)

lemma mergeArticles_split:
  "mergeArticles ex new = dedupByTitle ex @ keepUnseen (title ` set ex) new"
  by (simp add: mergeArticles_def dedupByTitle_keepUnseen keepUnseen_append)

lemma keepUnseen_nth:
  "keepUnseen S xs =
     map ((!) xs) (filter (\<lambda>j. title (xs ! j) \<notin> S \<union> title ` set (take j xs)) [0..<length xs])"
proof (induction xs rule: rev_induct)
  case Nil
  then show ?case by simp
next
  case (snoc x xs)
  have f: "filter (\<lambda>j. title ((xs @ [x]) ! j) \<notin> S \<union> title ` set (take j (xs @ [x]))) [0..<length xs]
         = filter (\<lambda>j. title (xs ! j) \<notin> S \<union> title ` set (take j xs)) [0..<length xs]"
    by (rule filter_cong) (auto simp: nth_append)
  have m: "map ((!) (xs @ [x])) (filter (\<lambda>j. title (xs ! j) \<notin> S \<union> title ` set (take j xs)) [0..<length xs])
         = map ((!) xs) (filter (\<lambda>j. title (xs ! j) \<notin> S \<union> title ` set (take j xs)) [0..<length xs])"
    by (rule map_cong) (auto simp: nth_append)
  show ?case
    using snoc.IH f m by (simp add: keepUnseen_append)
qed

section \<open>Facts about the sort\<close>

lemma mset_insertSorted: "mset (insertSorted c x xs) = add_mset x (mset xs)"
  by (induction xs) auto

lemma mset_arraySort: "mset (arraySort c xs) = mset xs"
  by (induction xs) (auto simp: arraySort_def mset_insertSorted)

lemma set_insertSorted: "set (insertSorted c x xs) = insert x (set xs)"
  by (induction xs) auto

lemma set_arraySort: "set (arraySort c xs) = set xs"
  by (induction xs) (auto simp: arraySort_def set_insertSorted)

lemma distinct_map_arraySort: "distinct (map f (arraySort c xs)) = distinct (map f xs)"
proof -
  have "mset (map f (arraySort c xs)) = mset (map f xs)"
    by (simp add: mset_arraySort)
  then show ?thesis by (rule mset_eq_imp_distinct_iff)
qed

lemma sorted_wrt_insertSorted:
  assumes total: "\<And>y. y \<in> set xs \<Longrightarrow> 0 < sortCompare c x y \<Longrightarrow> sortCompare c y x \<le> 0"
    and trans: "\<And>y z. y \<in> set xs \<Longrightarrow> z \<in> set xs \<Longrightarrow> sortCompare c x y \<le> 0 \<Longrightarrow>
        sortCompare c y z \<le> 0 \<Longrightarrow> sortCompare c x z \<le> 0"
    and sorted: "sorted_wrt (\<lambda>a b. sortCompare c a b \<le> 0) xs"
  shows "sorted_wrt (\<lambda>a b. sortCompare c a b \<le> 0) (insertSorted c x xs)"
  using assms
proof (induction xs)
  case Nil
  show ?case by simp
next
  case (Cons y ys)
  show ?case
  proof (cases "sortCompare c x y \<le> 0")
    case True
    have "sortCompare c x z \<le> 0" if "z \<in> set ys" for z
    proof -
      from Cons.prems(3) that have "sortCompare c y z \<le> 0" by simp
      show ?thesis
        by (rule Cons.prems(2) [of y z]) (use that True \<open>sortCompare c y z \<le> 0\<close> in simp_all)
    qed
    with True Cons.prems(3) show ?thesis by simp
  next
    case False
    have yx: "sortCompare c y x \<le> 0"
      by (rule Cons.prems(1)) (use False in simp_all)
    have rest: "sorted_wrt (\<lambda>a b. sortCompare c a b \<le> 0) (insertSorted c x ys)"
    proof (rule Cons.IH)
      show "sortCompare c z x \<le> 0" if "z \<in> set ys" "0 < sortCompare c x z" for z
        by (rule Cons.prems(1)) (use that in simp_all)
      show "sortCompare c x z \<le> 0"
        if "u \<in> set ys" "z \<in> set ys" "sortCompare c x u \<le> 0" "sortCompare c u z \<le> 0" for u z
        by (rule Cons.prems(2) [of u z]) (use that in simp_all)
      show "sorted_wrt (\<lambda>a b. sortCompare c a b \<le> 0) ys"
        using Cons.prems(3) by simp
    qed
    have "sortCompare c y z \<le> 0" if "z \<in> set (insertSorted c x ys)" for z
    proof (cases "z = x")
      case True
      with yx show ?thesis by simp
    next
      case False
      with that have "z \<in> set ys" by (simp add: set_insertSorted)
      with Cons.prems(3) show ?thesis by simp
    qed
    with False rest show ?thesis by simp
  qed
qed

lemma sorted_wrt_arraySort:
  assumes total: "\<And>x y. x \<in> set xs \<Longrightarrow> y \<in> set xs \<Longrightarrow> 0 < sortCompare c x y \<Longrightarrow>
        sortCompare c y x \<le> 0"
    and trans: "\<And>x y z. x \<in> set xs \<Longrightarrow> y \<in> set xs \<Longrightarrow> z \<in> set xs \<Longrightarrow>
        sortCompare c x y \<le> 0 \<Longrightarrow> sortCompare c y z \<le> 0 \<Longrightarrow> sortCompare c x z \<le> 0"
  shows "sorted_wrt (\<lambda>a b. sortCompare c a b \<le> 0) (arraySort c xs)"
  using assms
proof (induction xs)
  case Nil
  show ?case by (simp add: arraySort_def)
next
  case (Cons x xs)
  have ih: "sorted_wrt (\<lambda>a b. sortCompare c a b \<le> 0) (arraySort c xs)"
  proof (rule Cons.IH)
    show "sortCompare c b a \<le> 0" if "a \<in> set xs" "b \<in> set xs" "0 < sortCompare c a b" for a b
      by (rule Cons.prems(1)) (use that in simp_all)
    show "sortCompare c a d \<le> 0"
      if "a \<in> set xs" "b \<in> set xs" "d \<in> set xs"
        "sortCompare c a b \<le> 0" "sortCompare c b d \<le> 0" for a b d
      by (rule Cons.prems(2) [of a b d]) (use that in simp_all)
  qed
  have "sorted_wrt (\<lambda>a b. sortCompare c a b \<le> 0) (insertSorted c x (arraySort c xs))"
  proof (rule sorted_wrt_insertSorted [OF _ _ ih])
    show "sortCompare c y x \<le> 0" if "y \<in> set (arraySort c xs)" "0 < sortCompare c x y" for y
      by (rule Cons.prems(1)) (use that in \<open>simp_all add: set_arraySort\<close>)
    show "sortCompare c x z \<le> 0"
      if "y \<in> set (arraySort c xs)" "z \<in> set (arraySort c xs)"
        "sortCompare c x y \<le> 0" "sortCompare c y z \<le> 0" for y z
      by (rule Cons.prems(2) [of x y z]) (use that in \<open>simp_all add: set_arraySort\<close>)
  qed
  then show ?case by (simp add: arraySort_def)
qed

lemma filter_insertSorted:
  assumes "\<And>y. y \<in> set xs \<Longrightarrow> P x \<Longrightarrow> P y \<Longrightarrow> sortCompare c x y \<le> 0"
  shows "filter P (insertSorted c x xs) = (if P x then x # filter P xs else filter P xs)"
  using assms by (induction xs) auto

lemma filter_arraySort:
  assumes "\<And>x y. P x \<Longrightarrow> P y \<Longrightarrow> sortCompare c x y \<le> 0"
  shows "filter P (arraySort c xs) = filter P xs"
proof (induction xs)
  case Nil
  show ?case by (simp add: arraySort_def)
next
  case (Cons x xs)
  have "filter P (insertSorted c x (arraySort c xs))
      = (if P x then x # filter P (arraySort c xs) else filter P (arraySort c xs))"
    by (rule filter_insertSorted) (use assms in auto)
  with Cons.IH show ?case by (simp add: arraySort_def)
qed

lemma arraySort_sorted_fixpoint:
  "sorted_wrt (\<lambda>a b. sortCompare c a b \<le> 0) xs \<Longrightarrow> arraySort c xs = xs"
proof (induction xs)
  case Nil
  show ?case by (simp add: arraySort_def)
next
  case (Cons x xs)
  then have "arraySort c xs = xs" by simp
  moreover have "insertSorted c x xs = x # xs"
    using Cons.prems by (cases xs) auto
  ultimately show ?case by (simp add: arraySort_def)
qed

lemma tied_compare: "tied e k a \<Longrightarrow> tied e k b \<Longrightarrow> sortCompare (compareArticles e) a b \<le> 0"
  by (auto simp: tied_def sortCompare_def compareArticles_def split: option.splits)

lemma sortArticles_stable: "filter (tied e k) (sortArticles e xs) = filter (tied e k) xs"
  unfolding sortArticles_def by (rule filter_arraySort) (rule tied_compare)

lemma mset_sortArticles: "mset (sortArticles e xs) = mset xs"
  by (simp add: sortArticles_def mset_arraySort)

lemma set_sortArticles: "set (sortArticles e xs) = set xs"
  by (simp add: sortArticles_def set_arraySort)

lemma distinct_titles_sortArticles:
  "distinct (map title (sortArticles e xs)) = distinct (map title xs)"
  by (simp add: sortArticles_def distinct_map_arraySort)

lemma compare_total:
  assumes "consistentCollation (localeCompare e) ids" "id' a \<in> ids" "id' b \<in> ids"
    and "0 < sortCompare (compareArticles e) a b"
  shows "sortCompare (compareArticles e) b a \<le> 0"
proof (cases "id' a = id' b")
  case True
  with assms(4) show ?thesis
    by (auto simp: sortCompare_def compareArticles_def split: option.splits)
next
  case False
  with assms(4) have "0 < localeCompare e (id' a) (id' b)"
    by (simp add: sortCompare_def compareArticles_def)
  with assms(1-3) have "localeCompare e (id' b) (id' a) < 0"
    unfolding consistentCollation_def by blast
  with False show ?thesis by (simp add: sortCompare_def compareArticles_def)
qed

lemma compare_trans:
  assumes cc: "consistentCollation (localeCompare e) ids"
    and ids: "id' a \<in> ids" "id' b \<in> ids" "id' c \<in> ids"
    and valid: "parseDate e (pubDate a) \<noteq> None" "parseDate e (pubDate b) \<noteq> None"
      "parseDate e (pubDate c) \<noteq> None"
    and ab: "sortCompare (compareArticles e) a b \<le> 0"
    and bc: "sortCompare (compareArticles e) b c \<le> 0"
  shows "sortCompare (compareArticles e) a c \<le> 0"
proof -
  let ?lc = "localeCompare e"
  have lab: "?lc (id' a) (id' b) \<le> 0" if "id' a \<noteq> id' b"
    using ab that by (simp add: sortCompare_def compareArticles_def)
  have lbc: "?lc (id' b) (id' c) \<le> 0" if "id' b \<noteq> id' c"
    using bc that by (simp add: sortCompare_def compareArticles_def)
  have refl: "?lc x x = 0" if "x \<in> ids" for x
  proof -
    from cc that have "(?lc x x < 0) = (0 < ?lc x x)"
      unfolding consistentCollation_def by blast
    then show ?thesis by arith
  qed
  have trans: "?lc x z \<le> 0" if "x \<in> ids" "y \<in> ids" "z \<in> ids" "?lc x y \<le> 0" "?lc y z \<le> 0"
    for x y z
    using cc that unfolding consistentCollation_def by blast
  show ?thesis
  proof (cases "id' a = id' c")
    case same: True
    show ?thesis
    proof (cases "id' a = id' b")
      case True
      with same ab bc valid show ?thesis
        by (auto simp: sortCompare_def compareArticles_def split: option.splits)
    next
      case False
      with same have "id' b \<noteq> id' c" by simp
      with lbc same have ba: "?lc (id' b) (id' a) \<le> 0" by simp
      from lab False have "?lc (id' a) (id' b) \<le> 0" by simp
      moreover from cc ids have "(?lc (id' a) (id' b) < 0) = (0 < ?lc (id' b) (id' a))"
        unfolding consistentCollation_def by blast
      ultimately have "?lc (id' a) (id' b) = 0" using ba by arith
      with cc ids have "id' a = id' b" unfolding consistentCollation_def by blast
      with False show ?thesis by simp
    qed
  next
    case diff: False
    have "?lc (id' a) (id' c) \<le> 0"
    proof (cases "id' a = id' b")
      case True
      with diff have "id' b \<noteq> id' c" by simp
      with lbc True show ?thesis by simp
    next
      case ab': False
      show ?thesis
      proof (cases "id' b = id' c")
        case True
        with lab ab' show ?thesis by simp
      next
        case False
        with lab lbc ab' trans [OF ids] show ?thesis by simp
      qed
    qed
    with diff show ?thesis by (simp add: sortCompare_def compareArticles_def)
  qed
qed

lemma compare_orderedPair:
  assumes cc: "consistentCollation (localeCompare e) ids" and ids: "id' a \<in> ids"
    and valid: "parseDate e (pubDate a) \<noteq> None" "parseDate e (pubDate b) \<noteq> None"
    and ab: "sortCompare (compareArticles e) a b \<le> 0"
  shows "orderedPair e a b"
proof (cases "id' a = id' b")
  case True
  from cc ids have "(localeCompare e (id' a) (id' a) < 0) = (0 < localeCompare e (id' a) (id' a))"
    unfolding consistentCollation_def by blast
  then have "localeCompare e (id' a) (id' a) = 0" by arith
  with True ab valid show ?thesis
    by (auto simp: orderedPair_def pubDateGe_def sortCompare_def compareArticles_def
        split: option.splits)
next
  case False
  with ab show ?thesis
    by (simp add: orderedPair_def sortCompare_def compareArticles_def)
qed

lemma sortArticles_sorted_compare:
  assumes valid: "\<forall>a \<in> set xs. parseDate e (pubDate a) \<noteq> None"
    and cc: "consistentCollation (localeCompare e) (id' ` set xs)"
  shows "sorted_wrt (\<lambda>a b. sortCompare (compareArticles e) a b \<le> 0) (sortArticles e xs)"
  unfolding sortArticles_def
proof (rule sorted_wrt_arraySort)
  show "sortCompare (compareArticles e) y x \<le> 0"
    if "x \<in> set xs" "y \<in> set xs" "0 < sortCompare (compareArticles e) x y" for x y
    by (rule compare_total [OF cc]) (use that in simp_all)
  show "sortCompare (compareArticles e) x z \<le> 0"
    if "x \<in> set xs" "y \<in> set xs" "z \<in> set xs"
      "sortCompare (compareArticles e) x y \<le> 0" "sortCompare (compareArticles e) y z \<le> 0"
    for x y z
    by (rule compare_trans [OF cc, of x y z]) (use valid that in simp_all)
qed

lemma sortArticles_ordered:
  assumes valid: "\<forall>a \<in> set xs. parseDate e (pubDate a) \<noteq> None"
    and cc: "consistentCollation (localeCompare e) (id' ` set xs)"
  shows "sorted_wrt (orderedPair e) (sortArticles e xs)"
proof (rule sorted_wrt_mono_rel [rotated])
  show "sorted_wrt (\<lambda>a b. sortCompare (compareArticles e) a b \<le> 0) (sortArticles e xs)"
    by (rule sortArticles_sorted_compare [OF valid cc])
  fix a b
  assume "a \<in> set (sortArticles e xs)" "b \<in> set (sortArticles e xs)"
    "sortCompare (compareArticles e) a b \<le> 0"
  then show "orderedPair e a b"
    by (intro compare_orderedPair [OF cc, of a b]) (use valid in \<open>simp_all add: set_sortArticles\<close>)
qed

lemma sortArticles_fixpoint:
  assumes valid: "\<forall>a \<in> set xs. parseDate e (pubDate a) \<noteq> None"
    and cc: "consistentCollation (localeCompare e) (id' ` set xs)"
  shows "sortArticles e (sortArticles e xs) = sortArticles e xs"
proof -
  have "arraySort (compareArticles e) (sortArticles e xs) = sortArticles e xs"
    by (rule arraySort_sorted_fixpoint) (rule sortArticles_sorted_compare [OF valid cc])
  then show ?thesis by (simp add: sortArticles_def)
qed

section \<open>Facts about the two runs\<close>

lemma merge_absorbs:
  assumes "distinct (map title M)" and "title ` set A \<subseteq> title ` set M"
  shows "mergeArticles M A = M"
proof -
  from assms(2) have "keepUnseen (title ` set M) A = []" by (rule keepUnseen_all_seen)
  moreover from assms(1) have "dedupByTitle M = M" by (rule dedupByTitle_fixpoint)
  ultimately show ?thesis using mergeArticles_split [of M A] by simp
qed

lemma mergeArticles_distinct: "distinct (map title (mergeArticles ex new))"
  by (simp add: mergeArticles_def dedupByTitle_distinct)

lemma mergeArticles_titles: "title ` set (mergeArticles ex new) = title ` set ex \<union> title ` set new"
  by (simp add: mergeArticles_def dedupByTitle_keepUnseen keepUnseen_titles image_Un)

lemma fetchRSS_nothing_fetched:
  assumes "fst (fetchLoop e rssConfig ([], [])) = []"
  shows "fetchRSS e rssConfig fs =
     \<lparr>files = fs\<lparr>logFile :=
          writeLog e ''Critical error: No articles were fetched from any source'' (logFile fs)\<rparr>,
      exitCode = 1\<rparr>"
  using assms by (simp add: fetchRSS_def criticalError_def Let_def case_prod_beta)

lemma fetchRSS_not_iterable:
  assumes "fst (fetchLoop e rssConfig ([], [])) \<noteq> []"
    and "readExistingArticles fs = NotIterable message"
  shows "fetchRSS e rssConfig fs =
     \<lparr>files = fs\<lparr>logFile := writeLog e (''Critical error: '' @ message) (logFile fs)\<rparr>,
      exitCode = 1\<rparr>"
  using assms
  by (simp add: fetchRSS_def criticalError_def spreadArticles_def Let_def case_prod_beta)

lemma fetchRSS_fetched:
  assumes "fst (fetchLoop e rssConfig ([], [])) \<noteq> []"
    and "readExistingArticles fs = Articles existingArticles"
  shows "fetchRSS e rssConfig fs =
     \<lparr>files =
        \<lparr>articlesFile =
           Some (Articles (sortArticles e
             (mergeArticles existingArticles (fst (fetchLoop e rssConfig ([], [])))))),
         logFile =
           writeLog e
             (if snd (fetchLoop e rssConfig ([], [])) \<noteq> []
              then ''Failed sources: '' @ joinWith ''; '' (snd (fetchLoop e rssConfig ([], [])))
              else ''All sources fetched successfully'')
             (logFile fs)\<rparr>,
      exitCode = 0\<rparr>"
  using assms
  by (simp add: fetchRSS_def spreadArticles_def Let_def case_prod_beta mergeArticles_def)

lemma fetchSpecialRSS_result:
  assumes "readExistingArticles fs = Articles existingArticles"
  shows "fetchSpecialRSS e ids rssConfig fs =
     \<lparr>files =
        \<lparr>articlesFile =
           Some (Articles (sortArticles e
             (mergeArticles existingArticles
                (fetchSpecialLoop e (filter (\<lambda>src. srcId src \<in> set ids) rssConfig) [])))),
         logFile = logFile fs\<rparr>,
      exitCode = 0\<rparr>"
  using assms by (simp add: fetchSpecialRSS_def spreadArticles_def Let_def mergeArticles_def)

lemma fetchSpecialRSS_not_iterable:
  assumes "readExistingArticles fs = NotIterable message"
  shows "fetchSpecialRSS e ids rssConfig fs = \<lparr>files = fs, exitCode = 1\<rparr>"
  using assms by (simp add: fetchSpecialRSS_def spreadArticles_def Let_def)

lemma distinct_titles_positions:
  "distinct (map title out) \<longleftrightarrow>
     (\<forall>i < length out. \<forall>j < length out. i \<noteq> j \<longrightarrow> title (out ! i) \<noteq> title (out ! j))"
  by (simp add: distinct_conv_nth)

section \<open>Facts about strings\<close>

lemma splitOn_not_Nil: "splitOn c s \<noteq> []"
  by (induction s) (auto split: list.split)

lemma splitOn_no_separator: "c \<notin> set l \<Longrightarrow> splitOn c l = [l]"
  by (induction l) auto

lemma splitOn_append_separator:
  "c \<notin> set l \<Longrightarrow> splitOn c (l @ c # rest) = l # splitOn c rest"
  by (induction l) (auto split: list.split)

lemma hd_splitOn: "hd (splitOn c s) = takeWhile (\<lambda>x. x \<noteq> c) s"
  by (induction s) (auto split: list.split simp: splitOn_not_Nil)

lemma splitOn_logText:
  "\<forall>l \<in> set ls. newline \<notin> set l \<Longrightarrow> splitOn newline (logText ls) = ls @ [[]]"
  by (induction ls) (auto simp: logText_def splitOn_append_separator)

lemma logText_append: "logText (ls @ ms) = logText ls @ logText ms"
  by (simp add: logText_def)

lemma joinWith_concat: "ls \<noteq> [] \<Longrightarrow> joinWith sep ls @ sep = concat (map (\<lambda>l. l @ sep) ls)"
  by (induction sep ls rule: joinWith.induct) auto

lemma joinWith_logText: "ls \<noteq> [] \<Longrightarrow> joinWith [newline] ls @ [newline] = logText ls"
  by (simp add: joinWith_concat logText_def)

lemma trim_Nil: "trim [] = []"
  by (simp add: trim_def)

lemma isWhiteSpace_newline: "isWhiteSpace newline"
  by (simp add: isWhiteSpace_def newline_def)

lemma dropWhile_keeps_tail:
  assumes "ys \<noteq> []" and "\<not> P (hd ys)"
  shows "\<exists>x. dropWhile P (xs @ ys) = x @ ys \<and> set x \<subseteq> set xs"
proof (induction xs)
  case Nil
  from assms have "dropWhile P ys = ys" by (cases ys) simp_all
  then show ?case by simp
next
  case (Cons a xs)
  then obtain x where x: "dropWhile P (xs @ ys) = x @ ys" and sub: "set x \<subseteq> set xs"
    by (elim exE conjE)
  show ?case
  proof (cases "P a")
    case True
    with x have "dropWhile P ((a # xs) @ ys) = x @ ys" by simp
    moreover from sub have "set x \<subseteq> set (a # xs)" by (simp add: subset_insertI2)
    ultimately show ?thesis by (intro exI [of _ x] conjI)
  next
    case False
    then have "dropWhile P ((a # xs) @ ys) = (a # xs) @ ys" by simp
    then show ?thesis by (intro exI [of _ "a # xs"] conjI subset_refl)
  qed
qed

lemma trim_keeps_head:
  assumes "ts \<noteq> []" and "\<forall>c \<in> set ts. \<not> isWhiteSpace c"
  shows "\<exists>y. trim (ts @ rest) = ts @ y \<and> set y \<subseteq> set rest"
proof -
  from assms have "\<not> isWhiteSpace (hd (ts @ rest))" by (cases ts) simp_all
  with assms(1) have 1: "dropWhile isWhiteSpace (ts @ rest) = ts @ rest"
    by (cases ts) simp_all
  from assms have "rev ts \<noteq> []" and "\<not> isWhiteSpace (hd (rev ts))"
    by (simp_all add: hd_rev)
  from dropWhile_keeps_tail [of "rev ts" isWhiteSpace "rev rest", OF this]
  obtain x where x: "dropWhile isWhiteSpace (rev rest @ rev ts) = x @ rev ts"
    and sub: "set x \<subseteq> set (rev rest)"
    by blast
  from 1 x have "trim (ts @ rest) = ts @ rev x"
    by (simp add: trim_def)
  moreover from sub have "set (rev x) \<subseteq> set rest" by simp
  ultimately show ?thesis by (intro exI [of _ "rev x"] conjI)
qed

lemma trim_drop_newline: "trim (s @ [newline]) = trim s"
proof (cases "\<forall>c \<in> set s. isWhiteSpace c")
  case True
  then have "dropWhile isWhiteSpace (s @ [newline]) = []" "dropWhile isWhiteSpace s = []"
    unfolding dropWhile_eq_Nil_conv using isWhiteSpace_newline by simp_all
  then show ?thesis unfolding trim_def by (simp only:)
next
  case False
  then have "dropWhile isWhiteSpace (s @ [newline]) = dropWhile isWhiteSpace s @ [newline]"
    by (auto simp: dropWhile_append1)
  then show ?thesis by (simp add: trim_def isWhiteSpace_newline)
qed

lemma startsWith_append: "startsWith (p @ rest) p"
  by (simp add: startsWith_def)

lemma startsWith_same_length:
  "startsWith l d \<Longrightarrow> startsWith l d' \<Longrightarrow> length d = length d' \<Longrightarrow> d = d'"
  by (simp add: startsWith_def)

lemma isIsoDate_chars:
  assumes "isIsoDate d"
  shows "length d = 10" and "d \<noteq> []" and "\<forall>c \<in> set d. \<not> isWhiteSpace c"
    and "newline \<notin> set d"
proof -
  from assms show len: "length d = 10" by (simp add: isIsoDate_def)
  then show "d \<noteq> []" by auto
  have ch: "c = CHR ''-'' \<or> isDigit c" if "c \<in> set d" for c
  proof -
    from that obtain i where "i < length d" "d ! i = c" by (auto simp: in_set_conv_nth)
    then have "(i, c) \<in> set (enumerate 0 d)" by (auto simp: in_set_enumerate_eq)
    moreover from assms have "\<forall>p \<in> set (enumerate 0 d).
        (case p of (i, c) \<Rightarrow> if i = 4 \<or> i = 7 then c = CHR ''-'' else isDigit c)"
      by (simp add: isIsoDate_def list_all_iff)
    ultimately have "if i = 4 \<or> i = 7 then c = CHR ''-'' else isDigit c"
      by (auto dest: bspec)
    then show ?thesis by (simp split: if_splits)
  qed
  show "\<forall>c \<in> set d. \<not> isWhiteSpace c"
  proof
    fix c assume "c \<in> set d"
    from ch [OF this] show "\<not> isWhiteSpace c"
      by (auto simp: isWhiteSpace_def isDigit_def)
  qed
  then have "\<not> isWhiteSpace newline" if "newline \<in> set d"
    using that by (rule bspec)
  with isWhiteSpace_newline show "newline \<notin> set d" by (intro notI) simp
qed

section \<open>Facts about the run log\<close>

lemma logText_Nil: "logText [] = []"
  by (simp add: logText_def)

lemma wellFormedLog_lines:
  assumes "wellFormedLog ls"
  shows "filter (\<lambda>line. trim line \<noteq> []) (splitOn newline (logText ls)) = ls"
proof -
  from assms have nl: "\<forall>l \<in> set ls. newline \<notin> set l" and tr: "\<forall>l \<in> set ls. trim l \<noteq> []"
    by (simp_all add: wellFormedLog_def list_all_iff)
  from nl have "splitOn newline (logText ls) = ls @ [[]]" by (rule splitOn_logText)
  moreover from tr have "filter (\<lambda>line. trim line \<noteq> []) ls = ls" by (simp add: filter_id_conv)
  ultimately show ?thesis by (simp add: trim_Nil)
qed

lemma find_list_ex: "(find P ls = None) = (\<not> list_ex P ls)"
  by (auto simp: find_None_iff list_ex_iff)

lemma entry_trimmed:
  assumes "isIsoDate ts"
  shows "\<exists>y. trim (ts @ rest) = ts @ y \<and> set y \<subseteq> set rest"
  by (rule trim_keeps_head) (use isIsoDate_chars [OF assms] in simp_all)

lemma writeLog_step:
  assumes wf: "wellFormedLog ls"
    and lf: "lf = Some (logText ls) \<or> lf = None \<and> ls = []"
  shows "writeLog e message lf = Some (logText (putEntry (timestamp e) message ls))"
proof -
  let ?ts = "timestamp e"
  let ?entry = "?ts @ '': '' @ message"
  from lf have existing: "(case lf of None \<Rightarrow> [] | Some text \<Rightarrow> text) = logText ls"
    by (auto simp: logText_Nil)
  have lines: "filter (\<lambda>line. trim line \<noteq> []) (splitOn newline (logText ls)) = ls"
    by (rule wellFormedLog_lines [OF wf])
  have tr: "trim (?ts @ CHR '':'' # CHR '' '' # message @ [newline])
      = trim (?ts @ CHR '':'' # CHR '' '' # message)"
    using trim_drop_newline [of ?entry] by simp
  show ?thesis
  proof (cases "list_ex (\<lambda>line. startsWith line ?ts) ls")
    case True
    then obtain l where "find (\<lambda>line. startsWith line ?ts) ls = Some l"
      using find_list_ex [of "\<lambda>line. startsWith line ?ts" ls] by auto
    moreover from True have "ls \<noteq> []" by auto
    then have "joinWith [newline]
        (map (\<lambda>line. if startsWith line ?ts then trim ?entry else line) ls) @ [newline]
      = logText (map (\<lambda>line. if startsWith line ?ts then trim ?entry else line) ls)"
      by (intro joinWith_logText) simp
    ultimately show ?thesis
      using True by (simp add: writeLog_def Let_def existing lines tr putEntry_def cong: if_cong)
  next
    case False
    then have "find (\<lambda>line. startsWith line ?ts) ls = None"
      by (simp add: find_list_ex)
    moreover have "logText ls @ ?ts @ '': '' @ message @ [newline] = logText (ls @ [?entry])"
      by (simp add: logText_def)
    ultimately show ?thesis
      using False by (simp add: writeLog_def Let_def existing lines putEntry_def)
  qed
qed

lemma entry_wellFormed:
  assumes ts: "isIsoDate ts" and msg: "newline \<notin> set message"
  shows "newline \<notin> set (ts @ '': '' @ message)" and "trim (ts @ '': '' @ message) \<noteq> []"
    and "newline \<notin> set (trim (ts @ '': '' @ message))"
    and "trim (trim (ts @ '': '' @ message)) \<noteq> []"
proof -
  note d = isIsoDate_chars [OF ts]
  have c: "newline \<noteq> CHR '':''" "newline \<noteq> CHR '' ''" by (simp_all add: newline_def)
  from d(4) msg c show 1: "newline \<notin> set (ts @ '': '' @ message)" by simp
  from entry_trimmed [OF ts, of "'': '' @ message"]
  obtain y where y: "trim (ts @ '': '' @ message) = ts @ y" and sub: "set y \<subseteq> set ('': '' @ message)"
    by (elim exE conjE)
  from y d(2) show "trim (ts @ '': '' @ message) \<noteq> []" by simp
  from sub msg c have "newline \<notin> set y" by auto
  with y d(4) show "newline \<notin> set (trim (ts @ '': '' @ message))" by simp
  from entry_trimmed [OF ts, of y] obtain z where "trim (ts @ y) = ts @ z" by (elim exE conjE)
  with y d(2) show "trim (trim (ts @ '': '' @ message)) \<noteq> []" by simp
qed

lemma putEntry_wellFormed:
  assumes ts: "isIsoDate ts" and msg: "newline \<notin> set message" and wf: "wellFormedLog ls"
  shows "wellFormedLog (putEntry ts message ls)"
  using wf entry_wellFormed [OF ts msg]
  by (auto simp: putEntry_def wellFormedLog_def list_all_iff)

lemma startsWith_entry:
  assumes ts: "isIsoDate ts" and d: "isIsoDate d"
  shows "startsWith (ts @ rest) d = (d = ts)" and "startsWith (trim (ts @ rest)) d = (d = ts)"
proof -
  have len: "length d = length ts"
    using isIsoDate_chars(1) [OF ts] isIsoDate_chars(1) [OF d] by simp
  then show "startsWith (ts @ rest) d = (d = ts)"
    by (auto simp: startsWith_def)
  from entry_trimmed [OF ts, of rest] obtain y where "trim (ts @ rest) = ts @ y"
    by (elim exE conjE)
  with len show "startsWith (trim (ts @ rest)) d = (d = ts)"
    by (auto simp: startsWith_def)
qed

lemma putEntry_count:
  assumes ts: "isIsoDate ts" and d: "isIsoDate d"
  shows "length (filter (\<lambda>line. startsWith line d) (putEntry ts message ls)) =
     (if d = ts then max 1 (length (filter (\<lambda>line. startsWith line ts) ls))
      else length (filter (\<lambda>line. startsWith line d) ls))"
proof (cases "list_ex (\<lambda>line. startsWith line ts) ls")
  case False
  then have none: "filter (\<lambda>line. startsWith line ts) ls = []"
    by (simp add: filter_empty_conv list_ex_iff)
  show ?thesis
    using False none startsWith_entry(1) [OF ts d, of "'': '' @ message"]
    by (simp add: putEntry_def)
next
  case True
  let ?f = "\<lambda>line. if startsWith line ts then trim (ts @ '': '' @ message) else line"
  have len: "length d = length ts"
    using isIsoDate_chars(1) [OF ts] isIsoDate_chars(1) [OF d] by simp
  have same: "startsWith (?f l) d = startsWith l d" for l
  proof (cases "startsWith l ts")
    case False
    then show ?thesis by simp
  next
    case l: True
    have "startsWith l d = (d = ts)"
    proof
      assume "startsWith l d"
      with l len show "d = ts" by (rule startsWith_same_length [rotated 1])
    next
      assume "d = ts"
      with l show "startsWith l d" by simp
    qed
    with l startsWith_entry(2) [OF ts d, of "'': '' @ message"] show ?thesis by simp
  qed
  have "filter (\<lambda>line. startsWith line d) (map ?f ls)
      = map ?f (filter (\<lambda>line. startsWith line d) ls)"
    by (simp add: filter_map o_def same)
  then have "length (filter (\<lambda>line. startsWith line d) (putEntry ts message ls))
      = length (filter (\<lambda>line. startsWith line d) ls)"
    using True by (simp add: putEntry_def)
  moreover from True have "filter (\<lambda>line. startsWith line ts) ls \<noteq> []"
    by (simp add: filter_empty_conv list_ex_iff)
  then have "1 \<le> length (filter (\<lambda>line. startsWith line ts) ls)"
    by (cases "filter (\<lambda>line. startsWith line ts) ls") simp_all
  ultimately show ?thesis by simp
qed

lemma putEntry_lines:
  "set (putEntry ts message ls) \<subseteq>
     set ls \<union> {ts @ '': '' @ message, trim (ts @ '': '' @ message)}"
  by (auto simp: putEntry_def)

lemma writeLogs_foldl:
  assumes "list_all (\<lambda>(e, message). isIsoDate (timestamp e) \<and> newline \<notin> set message) writes"
    and "wellFormedLog ls"
    and "lf = Some (logText ls) \<or> lf = None \<and> ls = []"
  shows "writeLogs writes lf =
      (if writes = [] then lf
       else Some (logText (foldl (\<lambda>ls (e, message). putEntry (timestamp e) message ls) ls writes)))
    \<and> wellFormedLog (foldl (\<lambda>ls (e, message). putEntry (timestamp e) message ls) ls writes)"
  using assms
proof (induction writes arbitrary: ls lf)
  case Nil
  then show ?case by simp
next
  case (Cons w writes)
  obtain e message where w: "w = (e, message)" by (cases w)
  let ?ls = "putEntry (timestamp e) message ls"
  from Cons.prems(1) w have ts: "isIsoDate (timestamp e)" and msg: "newline \<notin> set message"
    and rest: "list_all (\<lambda>(e, message). isIsoDate (timestamp e) \<and> newline \<notin> set message) writes"
    by simp_all
  have step: "writeLog e message lf = Some (logText ?ls)"
    by (rule writeLog_step [OF Cons.prems(2) Cons.prems(3)])
  have wf: "wellFormedLog ?ls"
    by (rule putEntry_wellFormed [OF ts msg Cons.prems(2)])
  have "Some (logText ?ls) = Some (logText ?ls) \<or> Some (logText ?ls) = None \<and> ?ls = []"
    by simp
  from Cons.IH [OF rest wf this] w step show ?case by simp
qed

lemma putEntries_count:
  assumes "list_all (\<lambda>(e, message). isIsoDate (timestamp e) \<and> newline \<notin> set message) writes"
    and "isIsoDate d"
    and "length (filter (\<lambda>line. startsWith line d) ls) \<le> 1"
  shows "length (filter (\<lambda>line. startsWith line d)
      (foldl (\<lambda>ls (e, message). putEntry (timestamp e) message ls) ls writes)) \<le> 1"
  using assms
proof (induction writes arbitrary: ls)
  case Nil
  then show ?case by simp
next
  case (Cons w writes)
  obtain e message where w: "w = (e, message)" by (cases w)
  from Cons.prems(1) w have ts: "isIsoDate (timestamp e)"
    and rest: "list_all (\<lambda>(e, message). isIsoDate (timestamp e) \<and> newline \<notin> set message) writes"
    by simp_all
  from putEntry_count [OF ts Cons.prems(2), of message ls] Cons.prems(3)
  have "length (filter (\<lambda>line. startsWith line d) (putEntry (timestamp e) message ls)) \<le> 1"
    by (simp split: if_splits)
  from Cons.IH [OF rest Cons.prems(2) this] w show ?case by simp
qed

lemma putEntries_lines:
  "set (foldl (\<lambda>ls (e, message). putEntry (timestamp e) message ls) ls writes) \<subseteq>
     set ls \<union> (\<Union>(e, message) \<in> set writes.
        {timestamp e @ '': '' @ message, trim (timestamp e @ '': '' @ message)})"
proof (induction writes arbitrary: ls)
  case Nil
  show ?case by simp
next
  case (Cons w writes)
  obtain e message where w: "w = (e, message)" by (cases w)
  from Cons.IH [of "putEntry (timestamp e) message ls"] putEntry_lines [of "timestamp e" message ls] w
  show ?case by auto
qed

section \<open>Facts about failing sources\<close>

lemma fetchSource_cases:
  "fetchSource e src =
     (if sourceFails e src then Inl ''No feed or items found'' else Inr (articlesOf e src))"
  by (auto simp: fetchSource_def fetchWithTimeout_def sourceFails_def articlesOf_def Let_def
      intro: filter_cong split: sum.split option.split)

lemma fetchLoop_result:
  "fetchLoop e rssConfig (allArticles, errorSources) =
     (allArticles @ concat (map (articlesOf e) rssConfig),
      errorSources @
        map (\<lambda>src. srcTitle src @ '' (No feed or items found)'') (filter (sourceFails e) rssConfig))"
proof (induction rssConfig arbitrary: allArticles errorSources)
  case Nil
  show ?case by simp
next
  case (Cons src rest)
  show ?case
  proof (cases "sourceFails e src")
    case True
    then have "articlesOf e src = []"
      by (simp add: articlesOf_def sourceFails_def split: sum.splits option.splits)
    with True Cons.IH show ?thesis by (simp add: fetchSource_cases)
  next
    case False
    with Cons.IH show ?thesis by (simp add: fetchSource_cases)
  qed
qed

lemma startsWith_iff: "startsWith s p \<longleftrightarrow> (\<exists>q. s = p @ q)"
proof
  assume "startsWith s p"
  then have "s = p @ drop (length p) s"
    by (metis startsWith_def append_take_drop_id)
  then show "\<exists>q. s = p @ q" ..
next
  assume "\<exists>q. s = p @ q"
  then show "startsWith s p" by (auto simp: startsWith_def)
qed

lemma includesStr_iff: "includesStr s sub \<longleftrightarrow> (\<exists>p q. s = p @ sub @ q)"
proof (induction s)
  case Nil
  show ?case by auto
next
  case (Cons c cs)
  show ?case
  proof
    assume "includesStr (c # cs) sub"
    then consider "startsWith (c # cs) sub" | "includesStr cs sub" by auto
    then show "\<exists>p q. c # cs = p @ sub @ q"
    proof cases
      case 1
      then obtain q where "c # cs = sub @ q" by (auto simp: startsWith_iff)
      then have "c # cs = [] @ sub @ q" by simp
      then show ?thesis by blast
    next
      case 2
      with Cons.IH obtain p q where "cs = p @ sub @ q" by blast
      then have "c # cs = (c # p) @ sub @ q" by simp
      then show ?thesis by blast
    qed
  next
    assume "\<exists>p q. c # cs = p @ sub @ q"
    then obtain p q where pq: "c # cs = p @ sub @ q" by blast
    show "includesStr (c # cs) sub"
    proof (cases p)
      case Nil
      with pq have "startsWith (c # cs) sub" by (auto simp: startsWith_iff)
      then show ?thesis by simp
    next
      case (Cons a p')
      with pq have "cs = p' @ sub @ q" by simp
      with Cons.IH have "includesStr cs sub" by blast
      then show ?thesis by simp
    qed
  qed
qed

lemma joinWith_member: "x \<in> set xs \<Longrightarrow> \<exists>p q. joinWith sep xs = p @ x @ q"
proof (induction sep xs rule: joinWith.induct)
  case (1 sep)
  then show ?case by simp
next
  case (2 sep l)
  then have "joinWith sep [l] = [] @ x @ []" by simp
  then show ?case by blast
next
  case (3 sep l m ls)
  show ?case
  proof (cases "x = l")
    case True
    then have "joinWith sep (l # m # ls) = [] @ x @ (sep @ joinWith sep (m # ls))" by simp
    then show ?thesis by blast
  next
    case False
    with 3 obtain p q where "joinWith sep (m # ls) = p @ x @ q" by auto
    then have "joinWith sep (l # m # ls) = (l @ sep @ p) @ x @ q" by simp
    then show ?thesis by blast
  qed
qed

lemma last_joinWith:
  "xs \<noteq> [] \<Longrightarrow> last xs \<noteq> [] \<Longrightarrow> joinWith sep xs \<noteq> [] \<and> last (joinWith sep xs) = last (last xs)"
  by (induction sep xs rule: joinWith.induct) auto

lemma trim_entry_keeps_message:
  assumes "message \<noteq> []" and "\<not> isWhiteSpace (last message)"
  shows "\<exists>a. trim (ts @ '': '' @ message @ [newline]) = a @ '': '' @ message"
proof -
  have colon: "\<not> isWhiteSpace (CHR '':'')" by (simp add: isWhiteSpace_def)
  let ?rest = "CHR '' '' # message @ [newline]"
  from dropWhile_keeps_tail [of "CHR '':'' # ?rest" isWhiteSpace ts] colon
  obtain x where x: "dropWhile isWhiteSpace (ts @ CHR '':'' # ?rest) = x @ CHR '':'' # ?rest"
    by auto
  let ?tail = "rev message @ CHR '' '' # CHR '':'' # rev x"
  from assms have "?tail \<noteq> []" and "\<not> isWhiteSpace (hd ?tail)"
    by (simp_all add: hd_append hd_rev)
  then have "dropWhile isWhiteSpace ?tail = ?tail"
    by (cases ?tail) simp_all
  then have "dropWhile isWhiteSpace (rev (x @ CHR '':'' # ?rest)) = ?tail"
    by (simp add: isWhiteSpace_newline)
  with x have "trim (ts @ CHR '':'' # ?rest) = rev ?tail"
    by (simp only: trim_def)
  then have "trim (ts @ '': '' @ message @ [newline]) = x @ '': '' @ message"
    by simp
  then show ?thesis ..
qed

lemma find_Some_member: "find P xs = Some x \<Longrightarrow> x \<in> set xs \<and> P x"
  by (induction xs) (auto split: if_splits)

lemma map_member: "x \<in> set xs \<Longrightarrow> f x \<in> set (map f xs)"
  by simp

lemma writeLog_includes:
  assumes sub: "message = pre @ sub @ post" and ne: "message \<noteq> []"
    and last: "\<not> isWhiteSpace (last message)"
  shows "\<exists>log. writeLog e message lf = Some log \<and> includesStr log sub"
proof -
  let ?ts = "timestamp e"
  let ?existing = "case lf of None \<Rightarrow> [] | Some text \<Rightarrow> text"
  let ?lines = "filter (\<lambda>line. trim line \<noteq> []) (splitOn newline ?existing)"
  let ?entry = "trim (?ts @ '': '' @ message @ [newline])"
  let ?f = "\<lambda>line. if startsWith line ?ts then ?entry else line"
  show ?thesis
  proof (cases "find (\<lambda>line. startsWith line ?ts) ?lines")
    case None
    then have "writeLog e message lf = Some (?existing @ ?ts @ '': '' @ message @ [newline])"
      by (simp add: writeLog_def Let_def)
    moreover have "?existing @ ?ts @ '': '' @ message @ [newline]
        = (?existing @ ?ts @ '': '' @ pre) @ sub @ (post @ [newline])"
      by (simp add: sub)
    then have "includesStr (?existing @ ?ts @ '': '' @ message @ [newline]) sub"
      unfolding includesStr_iff by blast
    ultimately show ?thesis by blast
  next
    case (Some l)
    then have w: "writeLog e message lf = Some (joinWith [newline] (map ?f ?lines) @ [newline])"
      by (simp add: writeLog_def Let_def cong: if_cong)
    from find_Some_member [OF Some] have l: "l \<in> set ?lines" and "startsWith l ?ts"
      by (rule conjunct1, rule conjunct2)
    then have "?f l = ?entry" by simp
    moreover from l have "?f l \<in> set (map ?f ?lines)" by (rule map_member)
    ultimately have "?entry \<in> set (map ?f ?lines)" by (simp only:)
    from joinWith_member [OF this, of "[newline]"]
    obtain p q where j: "joinWith [newline] (map ?f ?lines) = p @ ?entry @ q" by blast
    from trim_entry_keeps_message [OF ne last, of ?ts]
    obtain a where "?entry = a @ '': '' @ message" by blast
    with j sub have "joinWith [newline] (map ?f ?lines) @ [newline]
        = (p @ a @ '': '' @ pre) @ sub @ (post @ q @ [newline])"
      by simp
    then have "includesStr (joinWith [newline] (map ?f ?lines) @ [newline]) sub"
      unfolding includesStr_iff by blast
    with w show ?thesis by blast
  qed
qed

section \<open>The merge step\<close>

text \<open>
  C1. For every existing corpus (a corpus is deduplicated: its titles are pairwise
  distinct) and every batch of newly fetched articles, the merge step retains every
  existing article, adds each new article whose title appears neither in the existing
  corpus nor earlier in the new batch, and keeps the existing articles ahead of the new
  ones. When an existing article and an article of the result share a title, the article
  of the result is the existing one, with its original description.
\<close>

theorem merge_retains_existing_adds_new:
  assumes "distinct (map title existingArticles)"
  shows "mergeArticles existingArticles allArticles =
           existingArticles @
           map ((!) allArticles)
             (filter (\<lambda>j. title (allArticles ! j) \<notin>
                          title ` set existingArticles \<union> title ` set (take j allArticles))
                [0..<length allArticles])
         \<and> (\<forall>e \<in> set existingArticles. \<forall>a \<in> set (mergeArticles existingArticles allArticles).
               title a = title e \<longrightarrow> a = e)"
proof -
  from assms have same: "dedupByTitle existingArticles = existingArticles"
    by (rule dedupByTitle_fixpoint)
  have split: "mergeArticles existingArticles allArticles =
      existingArticles @ keepUnseen (title ` set existingArticles) allArticles"
    using mergeArticles_split [of existingArticles allArticles] same by simp
  have inj: "inj_on title (set existingArticles)"
    using assms by (simp add: distinct_map)
  have bias: "a = e" if e: "e \<in> set existingArticles"
      and a: "a \<in> set (mergeArticles existingArticles allArticles)" and t: "title a = title e"
    for a e
  proof (cases "a \<in> set existingArticles")
    case True
    with inj e t show ?thesis by (auto dest: inj_onD)
  next
    case False
    with a split have "a \<in> set (keepUnseen (title ` set existingArticles) allArticles)" by simp
    then have "title a \<notin> title ` set existingArticles" by (rule keepUnseen_not_seen)
    with e t show ?thesis by auto
  qed
  show ?thesis
    using split bias by (simp add: keepUnseen_nth)
qed

text \<open>
  An existing article titled \<open>T\<close> with description \<open>D1\<close>, and a batch of three: the
  same title with description \<open>D2\<close>, a new title \<open>U\<close>, and \<open>U\<close> again. The result keeps
  the existing \<open>T\<close> and the first \<open>U\<close>.
\<close>

theorem merge_retains_existing_adds_new_witness:
  "distinct (map title [exampleArticle ''A'' ''T'' ''D1'' ''p'']) \<and>
   mergeArticles [exampleArticle ''A'' ''T'' ''D1'' ''p'']
     [exampleArticle ''A'' ''T'' ''D2'' ''p'', exampleArticle ''A'' ''U'' ''D3'' ''p'',
      exampleArticle ''B'' ''U'' ''D4'' ''p'']
   = [exampleArticle ''A'' ''T'' ''D1'' ''p'', exampleArticle ''A'' ''U'' ''D3'' ''p'']"
proof -
  have h: "distinct (map title [exampleArticle ''A'' ''T'' ''D1'' ''p''])" by simp
  from merge_retains_existing_adds_new [OF h,
      of "[exampleArticle ''A'' ''T'' ''D2'' ''p'', exampleArticle ''A'' ''U'' ''D3'' ''p'',
           exampleArticle ''B'' ''U'' ''D4'' ''p'']"]
  show ?thesis
    by (simp add: exampleArticle_def upt_rec numeral_eq_Suc)
qed

text \<open>
  C7. The merge-and-dedup step is idempotent: for every corpus \<open>C\<close> and every batch \<open>A\<close>
  of new articles, merging \<open>A\<close> into the result of merging \<open>A\<close> into \<open>C\<close> gives that
  result again, so a repeated run with the same input does not grow the corpus. The same
  holds when the first result has gone through the sort, as the written corpus has.
\<close>

theorem merge_idempotent:
  "mergeArticles (mergeArticles C A) A = mergeArticles C A \<and>
   mergeArticles (sortArticles e (mergeArticles C A)) A = sortArticles e (mergeArticles C A)"
proof
  show "mergeArticles (mergeArticles C A) A = mergeArticles C A"
    by (rule merge_absorbs) (simp_all add: mergeArticles_distinct mergeArticles_titles)
  show "mergeArticles (sortArticles e (mergeArticles C A)) A = sortArticles e (mergeArticles C A)"
    by (rule merge_absorbs)
      (simp_all add: distinct_titles_sortArticles set_sortArticles mergeArticles_distinct
        mergeArticles_titles)
qed

section \<open>The recency filter\<close>

lemma ceilDiv_ceiling: "ceilDiv x d = \<lceil>real_of_int x / real_of_int d\<rceil>"
  by (simp add: ceilDiv_def ceiling_divide_eq_div)

lemma ceilDiv_days: "ceilDiv (k * msPerDay) msPerDay = k"
  by (simp add: ceilDiv_def msPerDay_def)

text \<open>
  C5. For every article and day window \<open>N\<close>, the recency filter retains the article if
  and only if its date is valid and the absolute difference between now and the date,
  divided by the length of a day and rounded up, is at most \<open>N\<close>. An article dated
  exactly \<open>N\<close> days before now is retained, one dated \<open>N + 1\<close> days before now is
  excluded, and an article whose date is invalid is excluded.
\<close>

theorem filter_latest_window:
  "(filter_latest e article N \<longleftrightarrow>
      (\<exists>date. parseDate e (pubDate article) = Some date \<and>
         \<lceil>real_of_int \<bar>now e - date\<bar> / real_of_int (1000 * 60 * 60 * 24)\<rceil> \<le> N))
   \<and> (0 \<le> N \<and> parseDate e (pubDate article) = Some (now e - N * msPerDay)
        \<longrightarrow> filter_latest e article N)
   \<and> (parseDate e (pubDate article) = Some (now e - (N + 1) * msPerDay)
        \<longrightarrow> \<not> filter_latest e article N)
   \<and> (parseDate e (pubDate article) = None \<longrightarrow> \<not> filter_latest e article N)"
proof (intro conjI impI)
  have "real_of_int (1000 * 60 * 60 * 24) = real_of_int msPerDay"
    by (simp add: msPerDay_def)
  then show "filter_latest e article N \<longleftrightarrow>
      (\<exists>date. parseDate e (pubDate article) = Some date \<and>
         \<lceil>real_of_int \<bar>now e - date\<bar> / real_of_int (1000 * 60 * 60 * 24)\<rceil> \<le> N)"
    by (simp only: filter_latest_def Let_def ceilDiv_ceiling split: option.split) simp
next
  assume "0 \<le> N \<and> parseDate e (pubDate article) = Some (now e - N * msPerDay)"
  then have n: "0 \<le> N" and d: "parseDate e (pubDate article) = Some (now e - N * msPerDay)"
    by simp_all
  have "now e - (now e - N * msPerDay) = N * msPerDay" by arith
  moreover from n have "\<bar>N * msPerDay\<bar> = N * msPerDay"
    by (simp add: msPerDay_def)
  ultimately have "\<bar>now e - (now e - N * msPerDay)\<bar> = N * msPerDay"
    by (simp only:)
  with d show "filter_latest e article N"
    by (simp add: filter_latest_def ceilDiv_days)
next
  assume d: "parseDate e (pubDate article) = Some (now e - (N + 1) * msPerDay)"
  have "now e - (now e - (N + 1) * msPerDay) = (N + 1) * msPerDay" by arith
  moreover have "\<bar>(N + 1) * msPerDay\<bar> = \<bar>N + 1\<bar> * msPerDay"
    by (simp only: abs_mult) (simp add: msPerDay_def)
  ultimately have "\<bar>now e - (now e - (N + 1) * msPerDay)\<bar> = \<bar>N + 1\<bar> * msPerDay"
    by (simp only:)
  moreover have "N < \<bar>N + 1\<bar>" by arith
  ultimately show "\<not> filter_latest e article N"
    using d by (simp add: filter_latest_def ceilDiv_days)
next
  assume "parseDate e (pubDate article) = None"
  then show "\<not> filter_latest e article N"
    by (simp add: filter_latest_def)
qed

text \<open>
  With the clock at the first of May 2024 and a window of 60 days: the article of the
  second of March, 60 days back, stays; the article of the first of March and the
  article with the date text \<open>soon\<close> go.
\<close>

theorem filter_latest_window_witness:
  "0 \<le> (60 :: int) \<and>
   parseDate exampleEnv (pubDate (exampleArticle ''A'' ''t'' ''d'' ''2024-03-02T00:00:00.000Z''))
     = Some (now exampleEnv - 60 * msPerDay) \<and>
   filter_latest exampleEnv (exampleArticle ''A'' ''t'' ''d'' ''2024-03-02T00:00:00.000Z'') 60 \<and>
   parseDate exampleEnv (pubDate (exampleArticle ''A'' ''u'' ''d'' ''2024-03-01T00:00:00.000Z''))
     = Some (now exampleEnv - (60 + 1) * msPerDay) \<and>
   \<not> filter_latest exampleEnv (exampleArticle ''A'' ''u'' ''d'' ''2024-03-01T00:00:00.000Z'') 60 \<and>
   parseDate exampleEnv (pubDate (exampleArticle ''A'' ''v'' ''d'' ''soon'')) = None \<and>
   \<not> filter_latest exampleEnv (exampleArticle ''A'' ''v'' ''d'' ''soon'') 60"
proof -
  have a: "parseDate exampleEnv (pubDate (exampleArticle ''A'' ''t'' ''d'' ''2024-03-02T00:00:00.000Z''))
      = Some (now exampleEnv - 60 * msPerDay)"
    by (simp add: exampleEnv_def exampleArticle_def exampleParseDate_def msPerDay_def)
  have b: "parseDate exampleEnv (pubDate (exampleArticle ''A'' ''u'' ''d'' ''2024-03-01T00:00:00.000Z''))
      = Some (now exampleEnv - (60 + 1) * msPerDay)"
    by (simp add: exampleEnv_def exampleArticle_def exampleParseDate_def msPerDay_def)
  have c: "parseDate exampleEnv (pubDate (exampleArticle ''A'' ''v'' ''d'' ''soon'')) = None"
    by (simp add: exampleEnv_def exampleArticle_def exampleParseDate_def)
  have z: "0 \<le> (60 :: int)" by simp
  from z a filter_latest_window
    [of exampleEnv "exampleArticle ''A'' ''t'' ''d'' ''2024-03-02T00:00:00.000Z''" 60]
  have 1: "filter_latest exampleEnv (exampleArticle ''A'' ''t'' ''d'' ''2024-03-02T00:00:00.000Z'') 60"
    by blast
  from b filter_latest_window
    [of exampleEnv "exampleArticle ''A'' ''u'' ''d'' ''2024-03-01T00:00:00.000Z''" 60]
  have 2: "\<not> filter_latest exampleEnv (exampleArticle ''A'' ''u'' ''d'' ''2024-03-01T00:00:00.000Z'') 60"
    by blast
  from c filter_latest_window [of exampleEnv "exampleArticle ''A'' ''v'' ''d'' ''soon''" 60]
  have 3: "\<not> filter_latest exampleEnv (exampleArticle ''A'' ''v'' ''d'' ''soon'') 60"
    by blast
  from z a b c 1 2 3 show ?thesis by blast
qed

section \<open>Items without a title\<close>








section \<open>The written corpus\<close>

text \<open>
  C2. In the corpus that a run writes, the articles at any two different positions have
  different titles (titles are compared as strings, exactly). The runs that write the
  corpus are those that read the existing corpus as a list of articles, which a missing
  or unparseable file gives as well: a feed run of them writes when it fetched at least
  one article, a scraping run always.
\<close>

theorem written_corpus_titles_distinct:
  assumes "r = fetchRSS e rssConfig fs \<and> fst (fetchLoop e rssConfig ([], [])) \<noteq> []
         \<or> r = fetchSpecialRSS e ids rssConfig fs"
    and readable: "readExistingArticles fs = Articles existingArticles"
  shows "\<exists>out. articlesFile (files r) = Some (Articles out) \<and> distinct (map title out) \<and>
           (\<forall>i < length out. \<forall>j < length out. i \<noteq> j \<longrightarrow> title (out ! i) \<noteq> title (out ! j))"
proof -
  have d: "distinct (map title (sortArticles e (mergeArticles ex new)))" for ex new
    by (simp add: distinct_titles_sortArticles mergeArticles_distinct)
  from assms(1) show ?thesis
  proof
    assume a: "r = fetchRSS e rssConfig fs \<and> fst (fetchLoop e rssConfig ([], [])) \<noteq> []"
    then have "articlesFile (files r) =
        Some (Articles (sortArticles e
          (mergeArticles existingArticles (fst (fetchLoop e rssConfig ([], []))))))"
      by (simp add: fetchRSS_fetched [OF _ readable])
    with d show ?thesis
      using distinct_titles_positions by blast
  next
    assume "r = fetchSpecialRSS e ids rssConfig fs"
    then have "articlesFile (files r) =
        Some (Articles (sortArticles e
          (mergeArticles existingArticles
             (fetchSpecialLoop e (filter (\<lambda>src. srcId src \<in> set ids) rssConfig) []))))"
      by (simp add: fetchSpecialRSS_result [OF readable])
    with d show ?thesis
      using distinct_titles_positions by blast
  qed
qed

text \<open>
  A feed run over the sources \<open>A\<close>, \<open>B\<close> and \<open>C\<close>, of which \<open>B\<close> times out, on an
  empty disk: the three articles it writes have the titles \<open>a2\<close>, \<open>a1\<close> and \<open>C\<close>.
\<close>

theorem written_corpus_titles_distinct_witness:
  "fst (fetchLoop exampleEnv
      [exampleSource ''A'' ''Alpha'', exampleSource ''B'' ''Beta'', exampleSource ''C'' ''Gamma'']
      ([], [])) \<noteq> [] \<and>
   (\<exists>out. articlesFile (files (fetchRSS exampleEnv
        [exampleSource ''A'' ''Alpha'', exampleSource ''B'' ''Beta'', exampleSource ''C'' ''Gamma'']
        emptyDisk)) = Some (Articles out) \<and>
      map title out = [''a2'', ''a1'', ''C''] \<and> distinct (map title out))"
proof -
  let ?cfg = "[exampleSource ''A'' ''Alpha'', exampleSource ''B'' ''Beta'', exampleSource ''C'' ''Gamma'']"
  have h: "fst (fetchLoop exampleEnv ?cfg ([], [])) \<noteq> []"
    by code_simp
  have k: "readExistingArticles emptyDisk = Articles []"
    by (simp add: readExistingArticles_def emptyDisk_def)
  have v: "map title
      (case readExistingArticles (files (fetchRSS exampleEnv ?cfg emptyDisk)) of
         Articles xs \<Rightarrow> xs | NotIterable message \<Rightarrow> [])
      = [''a2'', ''a1'', ''C'']"
    by code_simp
  from h have run: "fetchRSS exampleEnv ?cfg emptyDisk = fetchRSS exampleEnv ?cfg emptyDisk
        \<and> fst (fetchLoop exampleEnv ?cfg ([], [])) \<noteq> []
      \<or> fetchRSS exampleEnv ?cfg emptyDisk = fetchSpecialRSS exampleEnv [] ?cfg emptyDisk"
    by (intro disjI1 conjI refl)
  from written_corpus_titles_distinct [OF run k]
  obtain out where o: "articlesFile (files (fetchRSS exampleEnv ?cfg emptyDisk)) = Some (Articles out)"
    and d: "distinct (map title out)"
    by blast
  from o v have t: "map title out = [''a2'', ''a1'', ''C'']"
    by (simp add: readExistingArticles_def)
  have "\<exists>out. articlesFile (files (fetchRSS exampleEnv ?cfg emptyDisk)) = Some (Articles out) \<and>
      map title out = [''a2'', ''a1'', ''C''] \<and> distinct (map title out)"
    by (rule exI [of _ out]) (use o t d in simp)
  with h show ?thesis by (rule conjI)
qed

section \<open>The order of the written corpus\<close>

text \<open>
  C3, as the code has it. Take a run that writes the corpus (it has read the existing
  corpus as a list of articles, as a missing or unparseable file gives), and suppose that the date
  of every article of the merged list is valid and that \<^verbatim>\<open>localeCompare\<close> is a consistent
  comparator on the ids of the list that tells different ids apart. Then in the written
  corpus every article and its successor are ordered: the first id is at most the second
  under \<^verbatim>\<open>localeCompare\<close>, and with equal ids the first date is at least the second.
  The written corpus is a permutation of the merged list, the articles tied on both keys
  keep their relative order, and sorting the written corpus again changes nothing.
\<close>

theorem written_corpus_sorted:
  assumes run: "r = fetchRSS e rssConfig fs \<and> allArticles = fst (fetchLoop e rssConfig ([], []))
                  \<and> allArticles \<noteq> []
              \<or> r = fetchSpecialRSS e ids rssConfig fs
                  \<and> allArticles = fetchSpecialLoop e (filter (\<lambda>src. srcId src \<in> set ids) rssConfig) []"
    and readable: "readExistingArticles fs = Articles existingArticles"
    and uniq: "uniqueArticles = mergeArticles existingArticles allArticles"
    and valid: "\<forall>a \<in> set uniqueArticles. parseDate e (pubDate a) \<noteq> None"
    and cc: "consistentCollation (localeCompare e) (id' ` set uniqueArticles)"
  shows "\<exists>out. articlesFile (files r) = Some (Articles out) \<and> out = sortArticles e uniqueArticles \<and>
           successively (orderedPair e) out \<and> mset out = mset uniqueArticles \<and>
           (\<forall>k. filter (tied e k) out = filter (tied e k) uniqueArticles) \<and>
           sortArticles e out = out"
proof -
  from run uniq have "articlesFile (files r) = Some (Articles (sortArticles e uniqueArticles))"
    by (auto simp: fetchRSS_fetched [OF _ readable] fetchSpecialRSS_result [OF readable])
  moreover have "successively (orderedPair e) (sortArticles e uniqueArticles)"
    by (rule successively_if_sorted_wrt) (rule sortArticles_ordered [OF valid cc])
  moreover have "sortArticles e (sortArticles e uniqueArticles) = sortArticles e uniqueArticles"
    by (rule sortArticles_fixpoint [OF valid cc])
  ultimately show ?thesis
    by (simp add: mset_sortArticles sortArticles_stable)
qed

text \<open>
  The feed run over \<open>A\<close>, \<open>B\<close> and \<open>C\<close> on an empty disk: the article of May comes
  before the article of April of the same source, and the source \<open>A\<close> before \<open>C\<close>.
\<close>

theorem written_corpus_sorted_witness:
  "consistentCollation (localeCompare exampleEnv) (set [''A'', ''C'']) \<and>
   (\<exists>out. articlesFile (files (fetchRSS exampleEnv
        [exampleSource ''A'' ''Alpha'', exampleSource ''B'' ''Beta'', exampleSource ''C'' ''Gamma'']
        emptyDisk)) = Some (Articles out) \<and>
      successively (orderedPair exampleEnv) out \<and>
      map title out = [''a2'', ''a1'', ''C''])"
proof -
  let ?cfg = "[exampleSource ''A'' ''Alpha'', exampleSource ''B'' ''Beta'', exampleSource ''C'' ''Gamma'']"
  let ?all = "fst (fetchLoop exampleEnv ?cfg ([], []))"
  let ?uniq = "mergeArticles [] ?all"
  have h: "?all \<noteq> []" by code_simp
  have ids: "id' ` set ?uniq = set [''A'', ''C'']" by code_simp
  have valid: "\<forall>a \<in> set ?uniq. parseDate exampleEnv (pubDate a) \<noteq> None" by code_simp
  have c: "consistentCollation (localeCompare exampleEnv) (set [''A'', ''C''])" by code_simp
  have k: "readExistingArticles emptyDisk = Articles []"
    by (simp add: readExistingArticles_def emptyDisk_def)
  have v: "map title
      (case readExistingArticles (files (fetchRSS exampleEnv ?cfg emptyDisk)) of
         Articles xs \<Rightarrow> xs | NotIterable message \<Rightarrow> [])
      = [''a2'', ''a1'', ''C'']"
    by code_simp
  from c ids have cc: "consistentCollation (localeCompare exampleEnv) (id' ` set ?uniq)"
    by (simp only:)
  from h have run: "fetchRSS exampleEnv ?cfg emptyDisk = fetchRSS exampleEnv ?cfg emptyDisk
        \<and> ?all = fst (fetchLoop exampleEnv ?cfg ([], [])) \<and> ?all \<noteq> []
      \<or> fetchRSS exampleEnv ?cfg emptyDisk = fetchSpecialRSS exampleEnv [] ?cfg emptyDisk
        \<and> ?all = fetchSpecialLoop exampleEnv (filter (\<lambda>src. srcId src \<in> set []) ?cfg) []"
    by (intro disjI1 conjI refl)
  from written_corpus_sorted [OF run k refl valid cc]
  obtain out where o: "articlesFile (files (fetchRSS exampleEnv ?cfg emptyDisk)) = Some (Articles out)"
    and s: "successively (orderedPair exampleEnv) out"
    by blast
  from o v have t: "map title out = [''a2'', ''a1'', ''C'']"
    by (simp add: readExistingArticles_def)
  have "\<exists>out. articlesFile (files (fetchRSS exampleEnv ?cfg emptyDisk)) = Some (Articles out) \<and>
      successively (orderedPair exampleEnv) out \<and> map title out = [''a2'', ''a1'', ''C'']"
    by (rule exI [of _ out]) (use o s t in simp)
  with c show ?thesis by (rule conjI)
qed

text \<open>
  The claim as stated fails as soon as a date is invalid. The source \<open>D\<close> gives one
  item dated the tenth of April 2024 and one with the date text \<open>soon\<close>. The run writes
  the two articles; they have the same id, and in neither order is the first date at
  least the second.
\<close>

theorem written_corpus_sorted_counterexample:
  "articlesFile (files (fetchRSS exampleEnv [exampleSource ''D'' ''Delta''] emptyDisk))
     = Some (Articles
         [fetchedArticle (exampleSource ''D'' ''Delta'') ''d1'' ''2024-04-10T00:00:00.000Z'',
          fetchedArticle (exampleSource ''D'' ''Delta'') ''d2'' ''soon'']) \<and>
   \<not> successively (orderedPair exampleEnv)
       [fetchedArticle (exampleSource ''D'' ''Delta'') ''d1'' ''2024-04-10T00:00:00.000Z'',
        fetchedArticle (exampleSource ''D'' ''Delta'') ''d2'' ''soon''] \<and>
   \<not> successively (orderedPair exampleEnv)
       [fetchedArticle (exampleSource ''D'' ''Delta'') ''d2'' ''soon'',
        fetchedArticle (exampleSource ''D'' ''Delta'') ''d1'' ''2024-04-10T00:00:00.000Z'']"
  by code_simp

section \<open>When a run ends without writing the corpus\<close>

text \<open>
  C4, as the code has it. A feed run that fetches no article from any source exits with
  code 1 and leaves the corpus file as it was. A feed run that fetches at least one
  article and has read the existing corpus as a list of articles (a missing or
  unparseable file counts as the empty list) exits with code 0, and the corpus file then
  holds the merge of the existing articles with the fetched ones, in some order. A feed
  run that fetches at least one article and has read a value that cannot be spread exits
  with code 1 and leaves the corpus file as it was. So a feed run ends without writing
  the corpus under two conditions, not one. A scraping run has no test on what it
  fetched: when it has read a list it writes the corpus and ends with code 0, whatever
  it fetched, and when it has read a value that cannot be spread it exits with code 1
  and leaves the corpus file as it was.
\<close>

theorem run_without_articles:
  "(fst (fetchLoop e rssConfig ([], [])) = [] \<longrightarrow>
      exitCode (fetchRSS e rssConfig fs) = 1 \<and>
      articlesFile (files (fetchRSS e rssConfig fs)) = articlesFile fs)
   \<and> (fst (fetchLoop e rssConfig ([], [])) \<noteq> [] \<and>
      readExistingArticles fs = Articles existingArticles \<longrightarrow>
      exitCode (fetchRSS e rssConfig fs) = 0 \<and>
      (\<exists>out. articlesFile (files (fetchRSS e rssConfig fs)) = Some (Articles out) \<and>
         mset out = mset (mergeArticles existingArticles (fst (fetchLoop e rssConfig ([], []))))))
   \<and> (fst (fetchLoop e rssConfig ([], [])) \<noteq> [] \<and>
      readExistingArticles fs = NotIterable message \<longrightarrow>
      exitCode (fetchRSS e rssConfig fs) = 1 \<and>
      articlesFile (files (fetchRSS e rssConfig fs)) = articlesFile fs)
   \<and> (readExistingArticles fs = Articles existingArticles \<longrightarrow>
      exitCode (fetchSpecialRSS e ids rssConfig fs) = 0 \<and>
      (\<exists>out. articlesFile (files (fetchSpecialRSS e ids rssConfig fs)) = Some (Articles out) \<and>
         mset out = mset (mergeArticles existingArticles
           (fetchSpecialLoop e (filter (\<lambda>src. srcId src \<in> set ids) rssConfig) []))))
   \<and> (readExistingArticles fs = NotIterable message \<longrightarrow>
      exitCode (fetchSpecialRSS e ids rssConfig fs) = 1 \<and>
      articlesFile (files (fetchSpecialRSS e ids rssConfig fs)) = articlesFile fs)"
proof (intro conjI impI)
  assume none_fetched: "fst (fetchLoop e rssConfig ([], [])) = []"
  note aborted = fetchRSS_nothing_fetched [where fs = fs, OF none_fetched]
  from aborted show "exitCode (fetchRSS e rssConfig fs) = 1" by simp
  from aborted show "articlesFile (files (fetchRSS e rssConfig fs)) = articlesFile fs" by simp
next
  assume "fst (fetchLoop e rssConfig ([], [])) \<noteq> [] \<and>
      readExistingArticles fs = Articles existingArticles"
  then have some_fetched: "fst (fetchLoop e rssConfig ([], [])) \<noteq> []"
    and readable: "readExistingArticles fs = Articles existingArticles"
    by (rule conjunct1, rule conjunct2)
  note written = fetchRSS_fetched [OF some_fetched readable]
  from written show "exitCode (fetchRSS e rssConfig fs) = 0" by simp
  let ?out = "sortArticles e (mergeArticles existingArticles (fst (fetchLoop e rssConfig ([], []))))"
  from written have "articlesFile (files (fetchRSS e rssConfig fs)) = Some (Articles ?out)"
    by simp
  moreover have "mset ?out = mset (mergeArticles existingArticles (fst (fetchLoop e rssConfig ([], []))))"
    by (rule mset_sortArticles)
  ultimately show "\<exists>out. articlesFile (files (fetchRSS e rssConfig fs)) = Some (Articles out) \<and>
      mset out = mset (mergeArticles existingArticles (fst (fetchLoop e rssConfig ([], []))))"
    by (intro exI conjI)
next
  assume "fst (fetchLoop e rssConfig ([], [])) \<noteq> [] \<and>
      readExistingArticles fs = NotIterable message"
  then have some_fetched: "fst (fetchLoop e rssConfig ([], [])) \<noteq> []"
    and broken: "readExistingArticles fs = NotIterable message"
    by (rule conjunct1, rule conjunct2)
  note aborted = fetchRSS_not_iterable [OF some_fetched broken]
  from aborted show "exitCode (fetchRSS e rssConfig fs) = 1" by simp
  from aborted show "articlesFile (files (fetchRSS e rssConfig fs)) = articlesFile fs" by simp
next
  assume readable: "readExistingArticles fs = Articles existingArticles"
  note written = fetchSpecialRSS_result [OF readable, of e ids rssConfig]
  from written show "exitCode (fetchSpecialRSS e ids rssConfig fs) = 0" by simp
  let ?all = "fetchSpecialLoop e (filter (\<lambda>src. srcId src \<in> set ids) rssConfig) []"
  let ?out = "sortArticles e (mergeArticles existingArticles ?all)"
  from written have "articlesFile (files (fetchSpecialRSS e ids rssConfig fs)) = Some (Articles ?out)"
    by simp
  moreover have "mset ?out = mset (mergeArticles existingArticles ?all)"
    by (rule mset_sortArticles)
  ultimately show "\<exists>out. articlesFile (files (fetchSpecialRSS e ids rssConfig fs)) = Some (Articles out) \<and>
      mset out = mset (mergeArticles existingArticles ?all)"
    by (intro exI conjI)
next
  assume broken: "readExistingArticles fs = NotIterable message"
  note aborted = fetchSpecialRSS_not_iterable [OF broken, of e ids rssConfig]
  from aborted show "exitCode (fetchSpecialRSS e ids rssConfig fs) = 1" by simp
  from aborted show "articlesFile (files (fetchSpecialRSS e ids rssConfig fs)) = articlesFile fs"
    by simp
qed

text \<open>
  The feed run over \<open>A\<close> and \<open>C\<close>. With every source out of reach it exits with code 1
  and the disk still has no corpus file. With the network of the examples it exits with
  code 0 on the disk without a corpus file, and with code 1 on the disk whose corpus
  file holds a JSON object, which it leaves as it was. The scraping run on the same two
  disks ends with code 0 and with code 1.
\<close>

theorem run_without_articles_witness:
  "fst (fetchLoop offlineEnv [exampleSource ''A'' ''Alpha'', exampleSource ''C'' ''Gamma'']
      ([], [])) = [] \<and>
   exitCode (fetchRSS offlineEnv [exampleSource ''A'' ''Alpha'', exampleSource ''C'' ''Gamma'']
      emptyDisk) = 1 \<and>
   articlesFile (files (fetchRSS offlineEnv
      [exampleSource ''A'' ''Alpha'', exampleSource ''C'' ''Gamma''] emptyDisk)) = None \<and>
   fst (fetchLoop exampleEnv [exampleSource ''A'' ''Alpha'', exampleSource ''C'' ''Gamma'']
      ([], [])) \<noteq> [] \<and>
   readExistingArticles emptyDisk = Articles [] \<and>
   exitCode (fetchRSS exampleEnv [exampleSource ''A'' ''Alpha'', exampleSource ''C'' ''Gamma'']
      emptyDisk) = 0 \<and>
   readExistingArticles objectDisk = NotIterable ''existingArticles is not iterable'' \<and>
   exitCode (fetchRSS exampleEnv [exampleSource ''A'' ''Alpha'', exampleSource ''C'' ''Gamma'']
      objectDisk) = 1 \<and>
   articlesFile (files (fetchRSS exampleEnv
      [exampleSource ''A'' ''Alpha'', exampleSource ''C'' ''Gamma''] objectDisk))
     = Some (NotIterable ''existingArticles is not iterable'') \<and>
   exitCode (fetchSpecialRSS exampleEnv SpecialRssIds [exampleSource zhonghuaLiubing ''CJE'']
      emptyDisk) = 0 \<and>
   exitCode (fetchSpecialRSS exampleEnv SpecialRssIds [exampleSource zhonghuaLiubing ''CJE'']
      objectDisk) = 1 \<and>
   articlesFile (files (fetchSpecialRSS exampleEnv SpecialRssIds
      [exampleSource zhonghuaLiubing ''CJE''] objectDisk))
     = Some (NotIterable ''existingArticles is not iterable'')"
proof -
  let ?cfg = "[exampleSource ''A'' ''Alpha'', exampleSource ''C'' ''Gamma'']"
  let ?special = "[exampleSource zhonghuaLiubing ''CJE'']"
  let ?message = "''existingArticles is not iterable''"
  have off: "fst (fetchLoop offlineEnv ?cfg ([], [])) = []" by code_simp
  have on: "fst (fetchLoop exampleEnv ?cfg ([], [])) \<noteq> []" by code_simp
  have none: "articlesFile emptyDisk = None" by (simp add: emptyDisk_def)
  have object: "articlesFile objectDisk = Some (NotIterable ?message)"
    by (simp add: objectDisk_def)
  have readable: "readExistingArticles emptyDisk = Articles []"
    by (simp add: readExistingArticles_def emptyDisk_def)
  have broken: "readExistingArticles objectDisk = NotIterable ?message"
    by (simp add: readExistingArticles_def objectDisk_def)
  from off run_without_articles [of offlineEnv ?cfg emptyDisk "[]" ?message SpecialRssIds]
  have 1: "exitCode (fetchRSS offlineEnv ?cfg emptyDisk) = 1"
    and 2: "articlesFile (files (fetchRSS offlineEnv ?cfg emptyDisk)) = articlesFile emptyDisk"
    by blast+
  from on readable run_without_articles [of exampleEnv ?cfg emptyDisk "[]" ?message SpecialRssIds]
  have 3: "exitCode (fetchRSS exampleEnv ?cfg emptyDisk) = 0"
    by blast
  from on broken run_without_articles [of exampleEnv ?cfg objectDisk "[]" ?message SpecialRssIds]
  have 4: "exitCode (fetchRSS exampleEnv ?cfg objectDisk) = 1"
    and 5: "articlesFile (files (fetchRSS exampleEnv ?cfg objectDisk)) = articlesFile objectDisk"
    by blast+
  from readable run_without_articles [of exampleEnv ?special emptyDisk "[]" ?message SpecialRssIds]
  have 6: "exitCode (fetchSpecialRSS exampleEnv SpecialRssIds ?special emptyDisk) = 0"
    by blast
  from broken run_without_articles [of exampleEnv ?special objectDisk "[]" ?message SpecialRssIds]
  have 7: "exitCode (fetchSpecialRSS exampleEnv SpecialRssIds ?special objectDisk) = 1"
    and 8: "articlesFile (files (fetchSpecialRSS exampleEnv SpecialRssIds ?special objectDisk))
      = articlesFile objectDisk"
    by blast+
  from off on 1 2 3 4 5 6 7 8 none object readable broken show ?thesis
    by (simp only: simp_thms)
qed

text \<open>
  The claim as stated fails for the scraping run. With every listing page out of reach
  the run fetches nothing, and still it ends with code 0 and writes the corpus file: the
  disk that had no corpus file now has one that holds the empty list.
\<close>

theorem run_without_articles_counterexample:
  "fetchSpecialLoop offlineEnv
     (filter (\<lambda>src. srcId src \<in> set SpecialRssIds) [exampleSource zhonghuaLiubing ''CJE'']) [] = [] \<and>
   exitCode (fetchSpecialRSS offlineEnv SpecialRssIds [exampleSource zhonghuaLiubing ''CJE'']
     emptyDisk) = 0 \<and>
   articlesFile emptyDisk = None \<and>
   articlesFile (files (fetchSpecialRSS offlineEnv SpecialRssIds
     [exampleSource zhonghuaLiubing ''CJE''] emptyDisk)) = Some (Articles [])"
  by code_simp
section \<open>The sliding window of the scraped source\<close>

lemma generateUrls_three:
  "generateUrls y m 0 [] =
     [issueUrl y m,
      (if m - 1 < 1 then issueUrl (y - 1) (m - 1 + 12) else issueUrl y (m - 1)),
      (if m - 2 < 1 then issueUrl (y - 1) (m - 2 + 12) else issueUrl y (m - 2))]"
  if "1 \<le> m"
proof -
  have 3: "generateUrls y m 3 urls = urls" for urls
    by (simp add: generateUrls.simps [of y m 3])
  have 2: "generateUrls y m 2 urls =
      urls @ [if m - 2 < 1 then issueUrl (y - 1) (m - 2 + 12) else issueUrl y (m - 2)]" for urls
    by (simp add: generateUrls.simps [of y m 2] 3)
  have 1: "generateUrls y m 1 urls =
      urls @ [if m - 1 < 1 then issueUrl (y - 1) (m - 1 + 12) else issueUrl y (m - 1),
              if m - 2 < 1 then issueUrl (y - 1) (m - 2 + 12) else issueUrl y (m - 2)]" for urls
    by (simp add: generateUrls.simps [of y m 1] 2)
  from that show ?thesis
    by (simp add: generateUrls.simps [of y m 0] 1)
qed

lemma fetchWithPuppeteer_breaks:
  "sessionBreaks e url \<Longrightarrow> \<exists>message. fetchWithPuppeteer e url src = Inl message"
  by (auto simp: sessionBreaks_def fetchWithPuppeteer_def Let_def split: session.splits)

lemma fetchWithPuppeteer_page:
  "\<not> sessionBreaks e url \<Longrightarrow>
     fetchWithPuppeteer e url src = Inr (map_option (map (formatItem e src)) (pageItems e url))"
  by (auto simp: sessionBreaks_def fetchWithPuppeteer_def pageItems_def Let_def
      split: session.splits sum.splits)

lemma fetchUrls_reached:
  "fetchUrls e src urls allArticles =
     allArticles @ concat (map
       (\<lambda>url. case pageItems e url of
               None \<Rightarrow> []
             | Some found \<Rightarrow>
                 if srcId src = zhonghuaLiubing
                 then filter (\<lambda>article. filter_latest e article 90)
                        (dedupByTitle (map (formatItem e src) found))
                 else dedupByTitle (map (formatItem e src) found))
       (reachedUrls e urls))"
proof (induction urls arbitrary: allArticles)
  case Nil
  show ?case by (simp add: reachedUrls_def)
next
  case (Cons url urls)
  show ?case
  proof (cases "sessionBreaks e url")
    case True
    from fetchWithPuppeteer_breaks [OF True, of src]
    obtain message where "fetchWithPuppeteer e url src = Inl message" ..
    with True show ?thesis by (simp add: reachedUrls_def)
  next
    case False
    note page = fetchWithPuppeteer_page [OF False, of src]
    from False have reached: "reachedUrls e (url # urls) = url # reachedUrls e urls"
      by (simp add: reachedUrls_def)
    show ?thesis
    proof (cases "pageItems e url")
      case None
      with page reached Cons.IH [of allArticles] show ?thesis by simp
    next
      case (Some found)
      with page reached
        Cons.IH [of "allArticles @ filter (\<lambda>article. filter_latest e article 90)
          (dedupByTitle (map (formatItem e src) found))"]
        Cons.IH [of "allArticles @ dedupByTitle (map (formatItem e src) found)"]
      show ?thesis by (simp add: Let_def)
    qed
  qed
qed

lemma fetchUrls_window:
  assumes "srcId src = zhonghuaLiubing"
  shows "fetchUrls e src urls allArticles =
     allArticles @ concat (map
       (\<lambda>url. case pageItems e url of
               None \<Rightarrow> []
             | Some found \<Rightarrow>
                 filter (\<lambda>article. filter_latest e article 90)
                   (dedupByTitle (map (formatItem e src) found)))
       (reachedUrls e urls))"
  using assms by (simp add: fetchUrls_reached [of e src urls allArticles] cong: option.case_cong)

lemma fetchSpecialLoop_reached:
  "fetchSpecialLoop e srcs allArticles =
     allArticles @ concat (map (\<lambda>src. fetchUrls e src (sourceUrls e src) []) srcs)"
proof (induction srcs arbitrary: allArticles)
  case Nil
  show ?case by simp
next
  case (Cons src rest)
  have "fetchUrls e src (sourceUrls e src) allArticles
      = allArticles @ fetchUrls e src (sourceUrls e src) []"
    by (simp add: fetchUrls_reached [of e src _ allArticles] fetchUrls_reached [of e src _ "[]"])
  with Cons.IH [of "fetchUrls e src (sourceUrls e src) allArticles"] show ?case by simp
qed

text \<open>
  C9, as the code has it. For the sliding-window source the run generates three listing
  pages: the page of the current month and the pages of the two months before it, where
  the month before January is December of the year before. The pages are fetched one
  after the other in that order, and the fetching of the source ends at the first page
  for which the browser does not start or does not close: that page and the pages after
  it add nothing. Of the pages before it, one whose loading or extraction fails adds
  nothing, and every other adds its articles, deduplicated by title within the page and
  cut down to the last 90 days. What the pages add is put together in the order of the
  pages; when the browser starts and closes for all three pages, all three are fetched
  in this way. A run with the ids of \<^verbatim>\<open>SpecialRssIds\<close> that has read the existing corpus as
  a list of articles writes the existing corpus followed by what the pages of all
  sources with that id add, deduplicated by title once more, in some order.
\<close>

theorem sliding_window_urls:
  assumes "srcId src = zhonghuaLiubing" and "0 \<le> monthIndex e" and "monthIndex e \<le> 11"
  shows "sourceUrls e src =
           map (\<lambda>(y, m). issueUrl y m)
             [(fullYear e, monthIndex e + 1),
              previousMonth (fullYear e, monthIndex e + 1),
              previousMonth (previousMonth (fullYear e, monthIndex e + 1))]
         \<and> fetchUrls e src (sourceUrls e src) allArticles =
             allArticles @ concat (map
               (\<lambda>url. case pageItems e url of
                       None \<Rightarrow> []
                     | Some found \<Rightarrow>
                         filter (\<lambda>article. filter_latest e article 90)
                           (dedupByTitle (map (formatItem e src) found)))
               (reachedUrls e (sourceUrls e src)))
         \<and> ((\<forall>url \<in> set (sourceUrls e src). \<not> sessionBreaks e url) \<longrightarrow>
             fetchUrls e src (sourceUrls e src) allArticles =
               allArticles @ concat (map
                 (\<lambda>url. case pageItems e url of
                         None \<Rightarrow> []
                       | Some found \<Rightarrow>
                           filter (\<lambda>article. filter_latest e article 90)
                             (dedupByTitle (map (formatItem e src) found)))
                 (sourceUrls e src)))
         \<and> (readExistingArticles fs = Articles existingArticles \<longrightarrow>
             (\<exists>out. articlesFile (files (fetchSpecialRSS e SpecialRssIds rssConfig fs))
                      = Some (Articles out) \<and>
                mset out = mset (dedupByTitle (existingArticles @
                  concat (map
                    (\<lambda>s. concat (map
                       (\<lambda>url. case pageItems e url of
                               None \<Rightarrow> []
                             | Some found \<Rightarrow>
                                 filter (\<lambda>article. filter_latest e article 90)
                                   (dedupByTitle (map (formatItem e s) found)))
                       (reachedUrls e (sourceUrls e s))))
                    (filter (\<lambda>s. srcId s = zhonghuaLiubing) rssConfig))))))"
proof (intro conjI impI)
  from assms(2) have "1 \<le> monthIndex e + 1" by simp
  note urls = generateUrls_three [OF this, of "fullYear e"]
  from assms(2) consider "monthIndex e = 0" | "monthIndex e = 1" | "2 \<le> monthIndex e"
    by arith
  then show "sourceUrls e src =
      map (\<lambda>(y, m). issueUrl y m)
        [(fullYear e, monthIndex e + 1),
         previousMonth (fullYear e, monthIndex e + 1),
         previousMonth (previousMonth (fullYear e, monthIndex e + 1))]"
  proof cases
    case 1
    with urls assms(1) show ?thesis
      by (simp add: sourceUrls_def Let_def previousMonth_def)
  next
    case 2
    with urls assms(1) show ?thesis
      by (simp add: sourceUrls_def Let_def previousMonth_def)
  next
    case 3
    with urls assms(1) show ?thesis
      by (simp add: sourceUrls_def Let_def previousMonth_def)
  qed
next
  from assms(1) show "fetchUrls e src (sourceUrls e src) allArticles =
      allArticles @ concat (map
        (\<lambda>url. case pageItems e url of
                None \<Rightarrow> []
              | Some found \<Rightarrow>
                  filter (\<lambda>article. filter_latest e article 90)
                    (dedupByTitle (map (formatItem e src) found)))
        (reachedUrls e (sourceUrls e src)))"
    by (rule fetchUrls_window)
next
  assume "\<forall>url \<in> set (sourceUrls e src). \<not> sessionBreaks e url"
  then have "reachedUrls e (sourceUrls e src) = sourceUrls e src"
    by (simp add: reachedUrls_def)
  with assms(1) show "fetchUrls e src (sourceUrls e src) allArticles =
      allArticles @ concat (map
        (\<lambda>url. case pageItems e url of
                None \<Rightarrow> []
              | Some found \<Rightarrow>
                  filter (\<lambda>article. filter_latest e article 90)
                    (dedupByTitle (map (formatItem e src) found)))
        (sourceUrls e src))"
    by (simp add: fetchUrls_window [of src e _ allArticles])
next
  assume readable: "readExistingArticles fs = Articles existingArticles"
  let ?page = "\<lambda>s url. case pageItems e url of
      None \<Rightarrow> []
    | Some found \<Rightarrow>
        filter (\<lambda>article. filter_latest e article 90)
          (dedupByTitle (map (formatItem e s) found))"
  let ?srcs = "filter (\<lambda>s. srcId s = zhonghuaLiubing) rssConfig"
  let ?all = "concat (map (\<lambda>s. concat (map (?page s) (reachedUrls e (sourceUrls e s)))) ?srcs)"
  have one: "fetchUrls e s (sourceUrls e s) [] = concat (map (?page s) (reachedUrls e (sourceUrls e s)))"
    if "s \<in> set ?srcs" for s
    using that by (simp add: fetchUrls_window [of s e _ "[]"])
  have "map (\<lambda>s. fetchUrls e s (sourceUrls e s) []) ?srcs
      = map (\<lambda>s. concat (map (?page s) (reachedUrls e (sourceUrls e s)))) ?srcs"
    by (rule map_cong [OF refl]) (rule one)
  then have loop: "fetchSpecialLoop e ?srcs [] = ?all"
    by (simp only: fetchSpecialLoop_reached append_Nil)
  have ids: "filter (\<lambda>s. srcId s \<in> set SpecialRssIds) rssConfig = ?srcs"
    by (simp add: SpecialRssIds_def)
  let ?out = "sortArticles e (dedupByTitle (existingArticles @ ?all))"
  from fetchSpecialRSS_result [OF readable, of e SpecialRssIds rssConfig] ids loop
  have "articlesFile (files (fetchSpecialRSS e SpecialRssIds rssConfig fs)) = Some (Articles ?out)"
    by (simp add: mergeArticles_def)
  moreover have "mset ?out = mset (dedupByTitle (existingArticles @ ?all))"
    by (rule mset_sortArticles)
  ultimately show "\<exists>out. articlesFile (files (fetchSpecialRSS e SpecialRssIds rssConfig fs))
        = Some (Articles out) \<and>
      mset out = mset (dedupByTitle (existingArticles @ ?all))"
    by (intro exI conjI)
qed

text \<open>
  In May 2024 the three pages are those of May, April and March 2024. The browser of the
  examples starts and closes for each of them and finds one article, on the page of
  April; the run on a disk without a corpus file writes that article. In January 2024
  the three pages are those of January 2024, December 2023 and November 2023.
\<close>

theorem sliding_window_urls_witness:
  "srcId (exampleSource zhonghuaLiubing ''CJE'') = zhonghuaLiubing \<and>
   0 \<le> monthIndex exampleEnv \<and> monthIndex exampleEnv \<le> 11 \<and>
   sourceUrls exampleEnv (exampleSource zhonghuaLiubing ''CJE'') =
     [''http://chinaepi.icdc.cn/zhlxbx/ch/reader/issue_list.aspx?year_id=2024&quarter_id=5'',
      ''http://chinaepi.icdc.cn/zhlxbx/ch/reader/issue_list.aspx?year_id=2024&quarter_id=4'',
      ''http://chinaepi.icdc.cn/zhlxbx/ch/reader/issue_list.aspx?year_id=2024&quarter_id=3''] \<and>
   filter (sessionBreaks exampleEnv)
     (sourceUrls exampleEnv (exampleSource zhonghuaLiubing ''CJE'')) = [] \<and>
   fetchUrls exampleEnv (exampleSource zhonghuaLiubing ''CJE'')
     (sourceUrls exampleEnv (exampleSource zhonghuaLiubing ''CJE'')) [] =
     [formatItem exampleEnv (exampleSource zhonghuaLiubing ''CJE'')
        (exampleRawItem ''z1'' ''2024-04-10T00:00:00.000Z'')] \<and>
   readExistingArticles emptyDisk = Articles [] \<and>
   (\<exists>out. articlesFile (files (fetchSpecialRSS exampleEnv SpecialRssIds
        [exampleSource zhonghuaLiubing ''CJE''] emptyDisk)) = Some (Articles out) \<and>
      mset out = mset [formatItem exampleEnv (exampleSource zhonghuaLiubing ''CJE'')
        (exampleRawItem ''z1'' ''2024-04-10T00:00:00.000Z'')]) \<and>
   0 \<le> monthIndex (exampleEnv\<lparr>monthIndex := 0\<rparr>) \<and>
   monthIndex (exampleEnv\<lparr>monthIndex := 0\<rparr>) \<le> 11 \<and>
   sourceUrls (exampleEnv\<lparr>monthIndex := 0\<rparr>) (exampleSource zhonghuaLiubing ''CJE'') =
     [''http://chinaepi.icdc.cn/zhlxbx/ch/reader/issue_list.aspx?year_id=2024&quarter_id=1'',
      ''http://chinaepi.icdc.cn/zhlxbx/ch/reader/issue_list.aspx?year_id=2023&quarter_id=12'',
      ''http://chinaepi.icdc.cn/zhlxbx/ch/reader/issue_list.aspx?year_id=2023&quarter_id=11'']"
proof -
  let ?e = "exampleEnv"
  let ?j = "exampleEnv\<lparr>monthIndex := 0\<rparr>"
  let ?s = "exampleSource zhonghuaLiubing ''CJE''"
  let ?z = "formatItem exampleEnv ?s (exampleRawItem ''z1'' ''2024-04-10T00:00:00.000Z'')"
  let ?page = "\<lambda>s url. case pageItems ?e url of
      None \<Rightarrow> []
    | Some found \<Rightarrow>
        filter (\<lambda>article. filter_latest ?e article 90)
          (dedupByTitle (map (formatItem ?e s) found))"
  have a: "srcId ?s = zhonghuaLiubing" by (simp add: exampleSource_def)
  have b: "0 \<le> monthIndex ?e" by (simp add: exampleEnv_def)
  have c: "monthIndex ?e \<le> 11" by (simp add: exampleEnv_def)
  have b': "0 \<le> monthIndex ?j" by simp
  have c': "monthIndex ?j \<le> 11" by simp
  have r: "readExistingArticles emptyDisk = Articles []"
    by (simp add: readExistingArticles_def emptyDisk_def)
  have may: "map (\<lambda>(y, m). issueUrl y m)
      [(fullYear ?e, monthIndex ?e + 1),
       previousMonth (fullYear ?e, monthIndex ?e + 1),
       previousMonth (previousMonth (fullYear ?e, monthIndex ?e + 1))] =
     [''http://chinaepi.icdc.cn/zhlxbx/ch/reader/issue_list.aspx?year_id=2024&quarter_id=5'',
      ''http://chinaepi.icdc.cn/zhlxbx/ch/reader/issue_list.aspx?year_id=2024&quarter_id=4'',
      ''http://chinaepi.icdc.cn/zhlxbx/ch/reader/issue_list.aspx?year_id=2024&quarter_id=3'']"
    by code_simp
  have january: "map (\<lambda>(y, m). issueUrl y m)
      [(fullYear ?j, monthIndex ?j + 1),
       previousMonth (fullYear ?j, monthIndex ?j + 1),
       previousMonth (previousMonth (fullYear ?j, monthIndex ?j + 1))] =
     [''http://chinaepi.icdc.cn/zhlxbx/ch/reader/issue_list.aspx?year_id=2024&quarter_id=1'',
      ''http://chinaepi.icdc.cn/zhlxbx/ch/reader/issue_list.aspx?year_id=2023&quarter_id=12'',
      ''http://chinaepi.icdc.cn/zhlxbx/ch/reader/issue_list.aspx?year_id=2023&quarter_id=11'']"
    by code_simp
  have closes: "filter (sessionBreaks ?e) (sourceUrls ?e ?s) = []" by code_simp
  then have all: "\<forall>url \<in> set (sourceUrls ?e ?s). \<not> sessionBreaks ?e url"
    by (simp add: filter_empty_conv)
  have pages: "[] @ concat (map (?page ?s) (sourceUrls ?e ?s)) = [?z]" by code_simp
  have corpus: "dedupByTitle ([] @
      concat (map (\<lambda>s. concat (map (?page s) (reachedUrls ?e (sourceUrls ?e s))))
        (filter (\<lambda>s. srcId s = zhonghuaLiubing) [?s]))) = [?z]"
    by code_simp
  note run = sliding_window_urls [OF a b c, of "[]" emptyDisk "[]" "[?s]"]
  from run have "sourceUrls ?e ?s =
      map (\<lambda>(y, m). issueUrl y m)
        [(fullYear ?e, monthIndex ?e + 1),
         previousMonth (fullYear ?e, monthIndex ?e + 1),
         previousMonth (previousMonth (fullYear ?e, monthIndex ?e + 1))]"
    by (rule conjunct1)
  with may have 1: "sourceUrls ?e ?s =
     [''http://chinaepi.icdc.cn/zhlxbx/ch/reader/issue_list.aspx?year_id=2024&quarter_id=5'',
      ''http://chinaepi.icdc.cn/zhlxbx/ch/reader/issue_list.aspx?year_id=2024&quarter_id=4'',
      ''http://chinaepi.icdc.cn/zhlxbx/ch/reader/issue_list.aspx?year_id=2024&quarter_id=3'']"
    by (simp only:)
  from run all have "fetchUrls ?e ?s (sourceUrls ?e ?s) [] =
      [] @ concat (map (?page ?s) (sourceUrls ?e ?s))"
    by blast
  with pages have 2: "fetchUrls ?e ?s (sourceUrls ?e ?s) [] = [?z]" by (simp only:)
  from run r obtain out
    where o: "articlesFile (files (fetchSpecialRSS ?e SpecialRssIds [?s] emptyDisk)) = Some (Articles out)"
      and m: "mset out = mset (dedupByTitle ([] @
        concat (map (\<lambda>s. concat (map (?page s) (reachedUrls ?e (sourceUrls ?e s))))
          (filter (\<lambda>s. srcId s = zhonghuaLiubing) [?s]))))"
    by blast
  from m corpus have "mset out = mset [?z]" by (simp only:)
  with o have 3: "\<exists>out. articlesFile (files (fetchSpecialRSS ?e SpecialRssIds [?s] emptyDisk))
      = Some (Articles out) \<and> mset out = mset [?z]"
    by (intro exI conjI)
  from sliding_window_urls [OF a b' c']
  have "sourceUrls ?j ?s =
      map (\<lambda>(y, m). issueUrl y m)
        [(fullYear ?j, monthIndex ?j + 1),
         previousMonth (fullYear ?j, monthIndex ?j + 1),
         previousMonth (previousMonth (fullYear ?j, monthIndex ?j + 1))]"
    by (rule conjunct1)
  with january have 4: "sourceUrls ?j ?s =
     [''http://chinaepi.icdc.cn/zhlxbx/ch/reader/issue_list.aspx?year_id=2024&quarter_id=1'',
      ''http://chinaepi.icdc.cn/zhlxbx/ch/reader/issue_list.aspx?year_id=2023&quarter_id=12'',
      ''http://chinaepi.icdc.cn/zhlxbx/ch/reader/issue_list.aspx?year_id=2023&quarter_id=11'']"
    by (simp only:)
  from a b c 1 closes 2 r 3 b' c' 4 show ?thesis by (intro conjI)
qed

text \<open>
  The claim as stated fails when the browser does not start. In May 2024 the run
  generates the pages of May, April and March. The browser does not start for the page
  of May; for the page of April it would start, close and find one article, three weeks
  old. The error of the first page ends the fetching of the source:
  the pages of April and March are not fetched, nothing of them is merged, and the run
  on a disk without a corpus file writes the empty list.
\<close>

theorem sliding_window_urls_counterexample:
  "sourceUrls launchFailsEnv (exampleSource zhonghuaLiubing ''CJE'') =
     [''http://chinaepi.icdc.cn/zhlxbx/ch/reader/issue_list.aspx?year_id=2024&quarter_id=5'',
      ''http://chinaepi.icdc.cn/zhlxbx/ch/reader/issue_list.aspx?year_id=2024&quarter_id=4'',
      ''http://chinaepi.icdc.cn/zhlxbx/ch/reader/issue_list.aspx?year_id=2024&quarter_id=3''] \<and>
   browse launchFailsEnv
     ''http://chinaepi.icdc.cn/zhlxbx/ch/reader/issue_list.aspx?year_id=2024&quarter_id=5''
     = LaunchFailed ''Failed to launch the browser process'' \<and>
   browse launchFailsEnv
     ''http://chinaepi.icdc.cn/zhlxbx/ch/reader/issue_list.aspx?year_id=2024&quarter_id=4''
     = Launched (Inr [exampleRawItem ''z1'' ''2024-04-10T00:00:00.000Z'']) None \<and>
   filter_latest launchFailsEnv
     (formatItem launchFailsEnv (exampleSource zhonghuaLiubing ''CJE'')
        (exampleRawItem ''z1'' ''2024-04-10T00:00:00.000Z'')) 90 \<and>
   fetchUrls launchFailsEnv (exampleSource zhonghuaLiubing ''CJE'')
     (sourceUrls launchFailsEnv (exampleSource zhonghuaLiubing ''CJE'')) [] = [] \<and>
   articlesFile (files (fetchSpecialRSS launchFailsEnv SpecialRssIds
     [exampleSource zhonghuaLiubing ''CJE''] emptyDisk)) = Some (Articles [])"
  by code_simp
section \<open>The run log\<close>

text \<open>
  C8, as the code has it. Take any sequence of writes to the run log that starts with no
  log file, each on a date of the form \<open>YYYY-MM-DD\<close> and with a message that holds no
  line feed. Then the file is the text of the lines that the specification's writes
  build (a write on a date that has a line puts the entry, trimmed, in the place of that
  line; a write on a fresh date adds a line at the end), each line ended by a line feed;
  every line is an entry \<open>date: message\<close> of one of the writes, trimmed or not; and for
  every date at most one line starts with that date.
\<close>

theorem run_log_one_line_per_date:
  assumes "\<forall>(e, message) \<in> set writes. isIsoDate (timestamp e) \<and> newline \<notin> set message"
  shows "writeLogs writes None = (if writes = [] then None else Some (logText (putEntries writes)))
    \<and> splitOn newline (logText (putEntries writes)) = putEntries writes @ [[]]
    \<and> (\<forall>d. isIsoDate d \<longrightarrow>
          length (filter (\<lambda>line. startsWith line d) (putEntries writes)) \<le> 1)
    \<and> (\<forall>line \<in> set (putEntries writes). \<exists>(e, message) \<in> set writes.
          line = timestamp e @ '': '' @ message \<or> line = trim (timestamp e @ '': '' @ message))"
proof -
  from assms
  have ok: "list_all (\<lambda>(e, message). isIsoDate (timestamp e) \<and> newline \<notin> set message) writes"
    by (simp add: list_all_iff)
  have wf0: "wellFormedLog []" by (simp add: wellFormedLog_def)
  have "None = Some (logText []) \<or> None = None \<and> ([] :: string list) = []" by simp
  from writeLogs_foldl [OF ok wf0 this]
  have run: "writeLogs writes None =
      (if writes = [] then None else Some (logText (putEntries writes)))"
    and wf: "wellFormedLog (putEntries writes)"
    by (simp_all add: putEntries_def)
  from wf have "splitOn newline (logText (putEntries writes)) = putEntries writes @ [[]]"
    by (intro splitOn_logText) (simp add: wellFormedLog_def list_all_iff)
  moreover have "length (filter (\<lambda>line. startsWith line d) (putEntries writes)) \<le> 1"
    if "isIsoDate d" for d
    unfolding putEntries_def by (rule putEntries_count [OF ok that]) simp
  moreover have "\<exists>(e, message) \<in> set writes.
      line = timestamp e @ '': '' @ message \<or> line = trim (timestamp e @ '': '' @ message)"
    if "line \<in> set (putEntries writes)" for line
    using that putEntries_lines [of "[]" writes] by (auto simp: putEntries_def)
  ultimately show ?thesis using run by blast
qed

text \<open>
  Three writes: two on the first of May 2024, of which the second takes the place of
  the first, and one on the second of May, which adds a line.
\<close>

theorem run_log_one_line_per_date_witness:
  "list_all (\<lambda>(e, message). isIsoDate (timestamp e) \<and> newline \<notin> set message)
     [(exampleEnv, ''All sources fetched successfully''),
      (exampleEnv, ''Failed sources: Beta (No feed or items found)''),
      (exampleEnv\<lparr>nowIso := ''2024-05-02T06:00:00.000Z''\<rparr>, ''All sources fetched successfully'')] \<and>
   writeLogs
     [(exampleEnv, ''All sources fetched successfully''),
      (exampleEnv, ''Failed sources: Beta (No feed or items found)''),
      (exampleEnv\<lparr>nowIso := ''2024-05-02T06:00:00.000Z''\<rparr>, ''All sources fetched successfully'')]
     None
   = Some (''2024-05-01: Failed sources: Beta (No feed or items found)'' @ [newline] @
           ''2024-05-02: All sources fetched successfully'' @ [newline])"
proof -
  let ?writes = "[(exampleEnv, ''All sources fetched successfully''),
      (exampleEnv, ''Failed sources: Beta (No feed or items found)''),
      (exampleEnv\<lparr>nowIso := ''2024-05-02T06:00:00.000Z''\<rparr>, ''All sources fetched successfully'')]"
  have h: "list_all (\<lambda>(e, message). isIsoDate (timestamp e) \<and> newline \<notin> set message) ?writes"
    by code_simp
  then have "\<forall>(e, message) \<in> set ?writes. isIsoDate (timestamp e) \<and> newline \<notin> set message"
    by (simp only: list_all_iff)
  from run_log_one_line_per_date [OF this]
  have "writeLogs ?writes None = Some (logText (putEntries ?writes))" by simp
  moreover have "logText (putEntries ?writes) =
      ''2024-05-01: Failed sources: Beta (No feed or items found)'' @ [newline] @
      ''2024-05-02: All sources fetched successfully'' @ [newline]"
    by code_simp
  ultimately show ?thesis using h by (simp only: simp_thms)
qed

text \<open>
  The claim as stated fails for a message that holds a line feed: one write on the first
  of May 2024 leaves two lines that start with that date.
\<close>

theorem run_log_one_line_per_date_counterexample:
  "writeLogs [(exampleEnv, ''x'' @ [newline] @ ''2024-05-01: y'')] None
     = Some (''2024-05-01: x'' @ [newline] @ ''2024-05-01: y'' @ [newline]) \<and>
   isIsoDate ''2024-05-01'' \<and>
   length (filter (\<lambda>line. startsWith line ''2024-05-01'')
     (splitOn newline (''2024-05-01: x'' @ [newline] @ ''2024-05-01: y'' @ [newline]))) = 2"
  by code_simp

section \<open>A run in which some sources fail\<close>

text \<open>
  C6, as the code has it. Take a feed run in which some sources fail and at least one
  article is fetched, and which has read the existing corpus as a list of articles (a
  missing or unparseable file counts as the empty list). Every failure is caught inside
  the loop and recorded as \<open>title (No feed or items found)\<close>: the message is the one the
  loop throws itself when \<^verbatim>\<open>fetchWithTimeout\<close> has returned \<^verbatim>\<open>null\<close>, whatever the error
  behind it was. The loop goes on with the next source, so the fetched articles are
  those of all sources that did not fail, in the order of the registry: for every such
  source one article for each item of its feed, deduplicated by title and, for the four
  sources of the recency allow-list, cut down to the last 60 days. The run exits with
  code 0, the corpus it writes holds the merge of the existing corpus with the fetched
  articles, in some order, and so the title of every fetched article, and the run log it
  leaves mentions every failed source by its title followed by that message.
\<close>

theorem partial_failure_run:
  assumes fetched: "fst (fetchLoop e rssConfig ([], [])) \<noteq> []"
    and failed: "failed = filter (sourceFails e) rssConfig"
    and some: "failed \<noteq> []"
    and readable: "readExistingArticles fs = Articles existingArticles"
  shows "snd (fetchLoop e rssConfig ([], [])) =
           map (\<lambda>src. srcTitle src @ '' (No feed or items found)'') failed
       \<and> fst (fetchLoop e rssConfig ([], [])) = concat (map (articlesOf e) rssConfig)
       \<and> exitCode (fetchRSS e rssConfig fs) = 0
       \<and> (\<exists>out. articlesFile (files (fetchRSS e rssConfig fs)) = Some (Articles out) \<and>
             mset out =
               mset (mergeArticles existingArticles (concat (map (articlesOf e) rssConfig))) \<and>
             (\<forall>src \<in> set rssConfig. title ` set (articlesOf e src) \<subseteq> title ` set out))
       \<and> (\<exists>log. logFile (files (fetchRSS e rssConfig fs)) = Some log \<and>
             (\<forall>src \<in> set failed.
                includesStr log (srcTitle src @ '' (No feed or items found)'')))"
proof -
  let ?rec = "\<lambda>src. srcTitle src @ '' (No feed or items found)''"
  let ?errors = "map ?rec failed"
  let ?all = "concat (map (articlesOf e) rssConfig)"
  let ?out = "sortArticles e (mergeArticles existingArticles ?all)"
  let ?message = "''Failed sources: '' @ joinWith ''; '' ?errors"
  from fetchLoop_result [of e rssConfig "[]" "[]"] failed
  have loop: "fetchLoop e rssConfig ([], []) = (?all, ?errors)" by simp
  from some have errs: "?errors \<noteq> []" by simp
  from fetched loop have "?all \<noteq> []" by simp
  with loop errs fetchRSS_fetched [OF fetched readable]
  have run: "fetchRSS e rssConfig fs =
      \<lparr>files = \<lparr>articlesFile = Some (Articles ?out), logFile = writeLog e ?message (logFile fs)\<rparr>,
       exitCode = 0\<rparr>"
    by simp
  have perm: "mset ?out = mset (mergeArticles existingArticles ?all)"
    by (rule mset_sortArticles)
  have titles: "title ` set (articlesOf e src) \<subseteq> title ` set ?out" if "src \<in> set rssConfig" for src
    using that by (auto simp: set_sortArticles mergeArticles_titles)
  have lastc: "?errors \<noteq> [] \<and> last ?errors \<noteq> [] \<and> last (last ?errors) = CHR '')''"
    using errs by (simp add: last_map)
  with last_joinWith [of ?errors "''; ''"]
  have j: "joinWith ''; '' ?errors \<noteq> []" "last (joinWith ''; '' ?errors) = CHR '')''"
    by simp_all
  then have ne: "?message \<noteq> []" and lastm: "\<not> isWhiteSpace (last ?message)"
    by (simp_all add: isWhiteSpace_def)
  have mention: "\<exists>log. writeLog e ?message (logFile fs) = Some log \<and> includesStr log (?rec src)"
    if "src \<in> set failed" for src
  proof -
    from that have "?rec src \<in> set ?errors" by (rule map_member)
    from joinWith_member [OF this, of "''; ''"]
    obtain p q where "joinWith ''; '' ?errors = p @ ?rec src @ q" by blast
    then have "?message = (''Failed sources: '' @ p) @ ?rec src @ q" by simp
    from writeLog_includes [OF this ne lastm] show ?thesis .
  qed
  obtain log where log: "writeLog e ?message (logFile fs) = Some log"
    using writeLog_includes [of ?message "[]" ?message "[]", OF _ ne lastm] by auto
  with mention have "\<forall>src \<in> set failed. includesStr log (?rec src)" by auto
  with log run loop titles perm show ?thesis by simp
qed

text \<open>
  The feed run over \<open>A\<close>, \<open>B\<close> and \<open>C\<close> on an empty disk, where \<open>B\<close> times out.
\<close>

theorem partial_failure_run_witness:
  "fst (fetchLoop exampleEnv
      [exampleSource ''A'' ''Alpha'', exampleSource ''B'' ''Beta'', exampleSource ''C'' ''Gamma'']
      ([], [])) \<noteq> [] \<and>
   filter (sourceFails exampleEnv)
      [exampleSource ''A'' ''Alpha'', exampleSource ''B'' ''Beta'', exampleSource ''C'' ''Gamma'']
      \<noteq> [] \<and>
   readExistingArticles emptyDisk = Articles [] \<and>
   snd (fetchLoop exampleEnv
      [exampleSource ''A'' ''Alpha'', exampleSource ''B'' ''Beta'', exampleSource ''C'' ''Gamma'']
      ([], [])) = [''Beta (No feed or items found)''] \<and>
   exitCode (fetchRSS exampleEnv
      [exampleSource ''A'' ''Alpha'', exampleSource ''B'' ''Beta'', exampleSource ''C'' ''Gamma'']
      emptyDisk) = 0"
proof -
  let ?cfg = "[exampleSource ''A'' ''Alpha'', exampleSource ''B'' ''Beta'', exampleSource ''C'' ''Gamma'']"
  have h: "fst (fetchLoop exampleEnv ?cfg ([], [])) \<noteq> []" by code_simp
  have k: "filter (sourceFails exampleEnv) ?cfg \<noteq> []" by code_simp
  have v: "map (\<lambda>src. srcTitle src @ '' (No feed or items found)'')
      (filter (sourceFails exampleEnv) ?cfg) = [''Beta (No feed or items found)'']"
    by code_simp
  have r: "readExistingArticles emptyDisk = Articles []"
    by (simp add: readExistingArticles_def emptyDisk_def)
  from partial_failure_run [OF h refl k r]
  have "snd (fetchLoop exampleEnv ?cfg ([], [])) =
      map (\<lambda>src. srcTitle src @ '' (No feed or items found)'') (filter (sourceFails exampleEnv) ?cfg)"
    and x: "exitCode (fetchRSS exampleEnv ?cfg emptyDisk) = 0"
    by blast+
  with v have "snd (fetchLoop exampleEnv ?cfg ([], [])) = [''Beta (No feed or items found)'']"
    by (simp only:)
  with h k r x show ?thesis by (intro conjI)
qed

text \<open>
  The claim as stated fails on the reason. The fetch of \<open>B\<close> ends with the error
  \<open>Timeout\<close>; what the run records for it, and what the run log holds, is the message
  \<open>No feed or items found\<close>, and the word \<open>Timeout\<close> is nowhere in the log.
\<close>

theorem partial_failure_run_counterexample:
  "net exampleEnv (exampleSource ''B'' ''Beta'') = Inl ''Timeout'' \<and>
   snd (fetchLoop exampleEnv
      [exampleSource ''A'' ''Alpha'', exampleSource ''B'' ''Beta'', exampleSource ''C'' ''Gamma'']
      ([], [])) = [''Beta (No feed or items found)''] \<and>
   logFile (files (fetchRSS exampleEnv
      [exampleSource ''A'' ''Alpha'', exampleSource ''B'' ''Beta'', exampleSource ''C'' ''Gamma'']
      emptyDisk))
     = Some (''2024-05-01: Failed sources: Beta (No feed or items found)'' @ [newline]) \<and>
   \<not> includesStr (''2024-05-01: Failed sources: Beta (No feed or items found)'' @ [newline])
       ''Timeout''"
  by code_simp


end
